theory Spec2Isabelle
  imports Complex_Main "HOL-Library.Multiset" "HOL-Library.List_Lexorder" "HOL-Library.Char_ord"
    "HOL-Library.Log_Nat"
begin

chapter \<open>RupeeRoute expense tracker: model and verified properties\<close>

text \<open>
  The theory embeds the aggregation and bookkeeping code of \<^verbatim>\<open>src/App.tsx\<close> and the
  gateway functions of the Gemini service module, and proves the properties the
  specification states about them.

  Conventions of the embedding.
  \<^item> A JavaScript number holding an amount is a finite IEEE 754 double, given by its exact
    value (a \<^typ>\<open>rat\<close>); the sum and the difference of two such numbers are the exact
    results rounded to the nearest double (\<open>fadd\<close>, \<open>fsub\<close>). A number holding a time value
    or a calendar field is an \<^typ>\<open>int\<close>. The \<open>NaN\<close> that the source can really produce
    (the time value of an unparsable date) is the value \<open>None\<close>.
  \<^item> A string is a \<^typ>\<open>string\<close>, a sequence of code units below 256; \<open><\<close> on strings
    is the lexicographic order on character codes, which is the order of JavaScript's
    relational operators on strings.
  \<^item> The built-in \<open>Date\<close> is modelled after ECMA-262 (section "Date Objects"): a date is
    its time value, the milliseconds since 1970-01-01T00:00:00Z. The host's time zone is a
    parameter \<open>z\<close> that gives the offset of local time from UTC, which may change with
    the time (daylight saving).
  \<^item> An exception is a value: a function that can throw returns \<open>Error + 'a\<close>.
\<close>

section \<open>The built-in Date\<close>

subsection \<open>Day number and time within day\<close>

definition msPerDay :: int where
  "msPerDay = 86400000"

definition Day :: "int \<Rightarrow> int" where
  "Day t = t div msPerDay"

definition TimeWithinDay :: "int \<Rightarrow> int" where
  "TimeWithinDay t = t mod msPerDay"

subsection \<open>Years\<close>

definition isLeapYear :: "int \<Rightarrow> bool" where
  "isLeapYear y = (y mod 4 = 0 \<and> (y mod 100 \<noteq> 0 \<or> y mod 400 = 0))"

definition DaysInYear :: "int \<Rightarrow> int" where
  "DaysInYear y = (if isLeapYear y then 366 else 365)"

definition DayFromYear :: "int \<Rightarrow> int" where
  "DayFromYear y = 365 * (y - 1970) + (y - 1969) div 4 - (y - 1901) div 100 + (y - 1601) div 400"

text \<open>
  ECMA-262 specifies \<open>YearFromTime(t)\<close> as the largest \<open>y\<close> with \<open>TimeFromYear(y) \<le> t\<close>.
  The executable form below starts from the estimate \<open>1970 + n / 365.2425\<close> and corrects it
  by at most one year; lemma \<open>YearFromDay_bounds\<close> shows that it meets the specification.
\<close>

definition YearFromDay :: "int \<Rightarrow> int" where
  "YearFromDay n =
     (let e = 1970 + (400 * n) div 146097
      in if DayFromYear (e + 1) \<le> n then e + 1
         else if DayFromYear e \<le> n then e
         else e - 1)"

definition YearFromTime :: "int \<Rightarrow> int" where
  "YearFromTime t = YearFromDay (Day t)"

definition InLeapYear :: "int \<Rightarrow> int" where
  "InLeapYear t = (if isLeapYear (YearFromTime t) then 1 else 0)"

definition DayWithinYear :: "int \<Rightarrow> int" where
  "DayWithinYear t = Day t - DayFromYear (YearFromTime t)"

subsection \<open>Months, days of the month, days of the week\<close>

text \<open>The day within the year on which month \<open>m\<close> (0 = January) starts; \<open>l\<close> is 1 in a leap year.\<close>

definition monthStart :: "int \<Rightarrow> int \<Rightarrow> int" where
  "monthStart l m =
     (if m = 0 then 0 else if m = 1 then 31 else if m = 2 then 59 + l
      else if m = 3 then 90 + l else if m = 4 then 120 + l else if m = 5 then 151 + l
      else if m = 6 then 181 + l else if m = 7 then 212 + l else if m = 8 then 243 + l
      else if m = 9 then 273 + l else if m = 10 then 304 + l else 334 + l)"

definition monthOfDay :: "int \<Rightarrow> int \<Rightarrow> int" where
  "monthOfDay l d =
     (if d < 31 then 0 else if d < 59 + l then 1 else if d < 90 + l then 2
      else if d < 120 + l then 3 else if d < 151 + l then 4 else if d < 181 + l then 5
      else if d < 212 + l then 6 else if d < 243 + l then 7 else if d < 273 + l then 8
      else if d < 304 + l then 9 else if d < 334 + l then 10 else 11)"

definition MonthFromTime :: "int \<Rightarrow> int" where
  "MonthFromTime t = monthOfDay (InLeapYear t) (DayWithinYear t)"

definition DateFromTime :: "int \<Rightarrow> int" where
  "DateFromTime t = DayWithinYear t - monthStart (InLeapYear t) (MonthFromTime t) + 1"

definition WeekDay :: "int \<Rightarrow> int" where
  "WeekDay t = (Day t + 4) mod 7"

subsection \<open>Building time values\<close>

definition MakeDay :: "int \<Rightarrow> int \<Rightarrow> int \<Rightarrow> int" where
  "MakeDay year month dt =
     (let ym = year + month div 12; mn = month mod 12
      in DayFromYear ym + monthStart (if isLeapYear ym then 1 else 0) mn + dt - 1)"

definition MakeDate :: "int \<Rightarrow> int \<Rightarrow> int" where
  "MakeDate day time = day * msPerDay + time"

subsection \<open>The time zone of the host\<close>

text \<open>
  ECMA-262 leaves the time zone to the host, as the operation \<open>LocalTZA(t, isUTC)\<close>: the
  offset of local time from UTC in milliseconds, either in force at the instant \<open>t\<close>
  (\<open>isUTC\<close> true, here \<open>atUTC\<close>), or the one with which the local time value \<open>t\<close> is read
  (\<open>isUTC\<close> false, here \<open>atLocal\<close>; a local time that a transition skips or repeats is
  read with the offset in force before the transition).
\<close>

record Zone =
  atUTC :: "int \<Rightarrow> int"
  atLocal :: "int \<Rightarrow> int"

definition LocalTime :: "Zone \<Rightarrow> int \<Rightarrow> int" where
  "LocalTime z t = t + atUTC z t"

definition UTC :: "Zone \<Rightarrow> int \<Rightarrow> int" where
  "UTC z t = t - atLocal z t"

text \<open>A zone that has the same offset at all times.\<close>

definition fixedZone :: "int \<Rightarrow> Zone" where
  "fixedZone k = \<lparr> atUTC = (\<lambda>t. k), atLocal = (\<lambda>t. k) \<rparr>"

subsection \<open>The methods of Date that the application calls\<close>

definition getFullYear :: "Zone \<Rightarrow> int \<Rightarrow> int" where
  "getFullYear z t = YearFromTime (LocalTime z t)"

definition getMonth :: "Zone \<Rightarrow> int \<Rightarrow> int" where
  "getMonth z t = MonthFromTime (LocalTime z t)"

definition getDate :: "Zone \<Rightarrow> int \<Rightarrow> int" where
  "getDate z t = DateFromTime (LocalTime z t)"

definition getDay :: "Zone \<Rightarrow> int \<Rightarrow> int" where
  "getDay z t = WeekDay (LocalTime z t)"

text \<open>\<^verbatim>\<open>new Date(year, month, date)\<close>: local midnight of that day; a year 0..99 means 1900 + year.\<close>

definition newDate :: "Zone \<Rightarrow> int \<Rightarrow> int \<Rightarrow> int \<Rightarrow> int" where
  "newDate z year month dt =
     (let yr = (if 0 \<le> year \<and> year \<le> 99 then 1900 + year else year)
      in UTC z (MakeDate (MakeDay yr month dt) 0))"

text \<open>\<^verbatim>\<open>d.setDate(dt)\<close>: the day of the month is replaced in local time, the time of day kept.\<close>

definition setDate :: "Zone \<Rightarrow> int \<Rightarrow> int \<Rightarrow> int" where
  "setDate z t dt =
     (let lt = LocalTime z t
      in UTC z (MakeDate (MakeDay (YearFromTime lt) (MonthFromTime lt) dt) (TimeWithinDay lt)))"

subsection \<open>Printing: toISOString\<close>

definition digitChar :: "int \<Rightarrow> char" where
  "digitChar n = char_of (48 + nat (n mod 10))"

definition pad2 :: "int \<Rightarrow> string" where
  "pad2 n = [digitChar (n div 10), digitChar n]"

definition pad3 :: "int \<Rightarrow> string" where
  "pad3 n = [digitChar (n div 100), digitChar (n div 10), digitChar n]"

definition pad4 :: "int \<Rightarrow> string" where
  "pad4 n = [digitChar (n div 1000), digitChar (n div 100), digitChar (n div 10), digitChar n]"

definition pad6 :: "int \<Rightarrow> string" where
  "pad6 n = [digitChar (n div 100000), digitChar (n div 10000), digitChar (n div 1000),
             digitChar (n div 100), digitChar (n div 10), digitChar n]"

text \<open>Years 0..9999 print with four digits, all others with a sign and six digits.\<close>

definition isoYear :: "int \<Rightarrow> string" where
  "isoYear y =
     (if 0 \<le> y \<and> y \<le> 9999 then pad4 y
      else (if y < 0 then CHR ''-'' else CHR ''+'') # pad6 \<bar>y\<bar>)"

definition isoDateOfDay :: "int \<Rightarrow> string" where
  "isoDateOfDay n =
     (let t = n * msPerDay
      in isoYear (YearFromTime t) @ ''-'' @ pad2 (MonthFromTime t + 1) @ ''-'' @ pad2 (DateFromTime t))"

definition isoTimeOfDay :: "int \<Rightarrow> string" where
  "isoTimeOfDay ms =
     pad2 (ms div 3600000) @ '':'' @ pad2 (ms div 60000 mod 60) @ '':'' @ pad2 (ms div 1000 mod 60)
       @ ''.'' @ pad3 (ms mod 1000)"

definition toISOString :: "int \<Rightarrow> string" where
  "toISOString t = isoDateOfDay (Day t) @ ''T'' @ isoTimeOfDay (TimeWithinDay t) @ ''Z''"

text \<open>\<^verbatim>\<open>s.split('T')[0]\<close>: the part of \<open>s\<close> before the first \<open>T\<close>.\<close>

definition splitT0 :: "string \<Rightarrow> string" where
  "splitT0 s = takeWhile (\<lambda>c. c \<noteq> CHR ''T'') s"

subsection \<open>Parsing: the time value of a date-only string\<close>

definition isDigit :: "char \<Rightarrow> bool" where
  "isDigit c = (CHR ''0'' \<le> c \<and> c \<le> CHR ''9'')"

definition digitVal :: "char \<Rightarrow> int" where
  "digitVal c = int (of_char c) - 48"

definition DaysInMonth :: "int \<Rightarrow> int \<Rightarrow> int" where
  "DaysInMonth y m =
     (if m = 2 then (if isLeapYear y then 29 else 28)
      else if m = 4 \<or> m = 6 \<or> m = 9 \<or> m = 11 then 30 else 31)"

text \<open>
  The regular expression \<^verbatim>\<open>/^\d{4}-\d{2}-\d{2}$/\<close> of the service module: four digits,
  a hyphen, two digits, a hyphen, two digits, and nothing else.
\<close>

definition matchesDatePattern :: "string \<Rightarrow> bool" where
  "matchesDatePattern s =
     (length s = 10 \<and> isDigit (s ! 0) \<and> isDigit (s ! 1) \<and> isDigit (s ! 2) \<and> isDigit (s ! 3)
      \<and> s ! 4 = CHR ''-'' \<and> isDigit (s ! 5) \<and> isDigit (s ! 6)
      \<and> s ! 7 = CHR ''-'' \<and> isDigit (s ! 8) \<and> isDigit (s ! 9))"

text \<open>The numbers that the digit groups of such a string denote.\<close>

definition dateYear :: "string \<Rightarrow> int" where
  "dateYear s = 1000 * digitVal (s ! 0) + 100 * digitVal (s ! 1) + 10 * digitVal (s ! 2) + digitVal (s ! 3)"

definition dateMonth :: "string \<Rightarrow> int" where
  "dateMonth s = 10 * digitVal (s ! 5) + digitVal (s ! 6)"

definition dateDay :: "string \<Rightarrow> int" where
  "dateDay s = 10 * digitVal (s ! 8) + digitVal (s ! 9)"

text \<open>
  \<^verbatim>\<open>new Date(s).getTime()\<close> for a string \<open>s\<close>. ECMA-262 fixes the result for the date-time
  string format; the form the application stores is the date-only form \<open>YYYY-MM-DD\<close>, read
  as UTC midnight of that day. A string of that shape that names no calendar day, and
  every other string, is outside the fixed format (its reading is left to the
  implementation); the model reads it as an invalid date, time value \<open>NaN\<close>, here \<open>None\<close>.
\<close>

definition dateTime :: "string \<Rightarrow> int option" where
  "dateTime s =
     (if matchesDatePattern s
         \<and> 1 \<le> dateMonth s \<and> dateMonth s \<le> 12
         \<and> 1 \<le> dateDay s \<and> dateDay s \<le> DaysInMonth (dateYear s) (dateMonth s)
      then Some (MakeDate (MakeDay (dateYear s) (dateMonth s - 1) (dateDay s)) 0)
      else None)"



text \<open>
  \<^verbatim>\<open>getFormattedDate(date)\<close> of App.tsx; the argument is the Date passed, or the reading of
  the clock where none is passed.
\<close>

definition getFormattedDate :: "int \<Rightarrow> string" where
  "getFormattedDate d = splitT0 (toISOString d)"

section \<open>Data model (types.ts, constants.ts)\<close>

text \<open>
  \<open>Category\<close> and \<open>PaymentMethod\<close> are unions of string literals, checked by the compiler
  only; at run time they are strings, and the service module tests membership at run time.
\<close>

type_synonym Category = string
type_synonym PaymentMethod = string

record Expense =
  id_e :: string
  date :: string
  category :: Category
  amount :: rat
  description :: string
  paymentMethod :: PaymentMethod

text \<open>\<open>Partial<Expense>\<close>: every field may be absent (\<open>undefined\<close>).\<close>

record PartialExpense =
  id_p :: "string option"
  date_p :: "string option"
  category_p :: "Category option"
  amount_p :: "rat option"
  description_p :: "string option"
  paymentMethod_p :: "PaymentMethod option"

datatype SortOption = Latest | Amount

definition CATEGORIES :: "Category list" where
  "CATEGORIES = [''Food'', ''Transport'', ''Shopping'', ''Entertainment'', ''Health'', ''Utilities'', ''Other'']"


text \<open>The invariant the specification states for a stored Expense, field by field.\<close>

definition validDate :: "string \<Rightarrow> bool" where
  "validDate s = (dateTime s \<noteq> None)"



section \<open>JavaScript values and operators\<close>

subsection \<open>Numbers\<close>

text \<open>
  A finite double is a rational \<open>m * 2^e\<close> with an integer \<open>m\<close> of at most 53 bits.
  \<open>roundDouble x\<close> is the double nearest to \<open>x\<close>, the one with the even \<open>m\<close> when two are
  equally near (the rounding of IEEE 754 that ECMA-262 prescribes for \<open>+\<close> and \<open>-\<close>):
  \<open>binade x\<close> is the \<open>e\<close> with \<open>2^e \<le> x < 2^(e + 1)\<close>, so \<open>x / 2^(binade x - 52)\<close> lies
  between \<open>2^52\<close> and \<open>2^53\<close> and is rounded to an integer. The exponent is not bounded:
  results of magnitude \<open>2^1024\<close> and more (\<open>Infinity\<close> in JavaScript) and below \<open>2^-1022\<close>
  (subnormal) are outside the model, and so is the zero with a negative sign.
\<close>

definition roundHalfEven :: "rat \<Rightarrow> int" where
  "roundHalfEven x =
     (let f = \<lfloor>x\<rfloor>; d = x - of_int f
      in if d < 1 / 2 then f else if 1 / 2 < d then f + 1 else if even f then f else f + 1)"

definition binade :: "rat \<Rightarrow> int" where
  "binade x =
     (let (p, q) = quotient_of x; k = bitlen p - bitlen q
      in if 2 powi k \<le> x then k else k - 1)"

definition roundDouble :: "rat \<Rightarrow> rat" where
  "roundDouble x =
     (if x = 0 then 0
      else (let e = binade \<bar>x\<bar> - 52
            in sgn x * of_int (roundHalfEven (\<bar>x\<bar> / 2 powi e)) * 2 powi e))"

text \<open>\<open>a + b\<close> and \<open>a - b\<close> on numbers.\<close>

definition fadd :: "rat \<Rightarrow> rat \<Rightarrow> rat" where
  "fadd a b = roundDouble (a + b)"

definition fsub :: "rat \<Rightarrow> rat \<Rightarrow> rat" where
  "fsub a b = roundDouble (a - b)"

subsection \<open>Defaults\<close>

text \<open>\<open>v || d\<close> for a string that may be absent: \<open>undefined\<close> and the empty string are falsy.\<close>

definition truthy :: "string option \<Rightarrow> bool" where
  "truthy v = (case v of None \<Rightarrow> False | Some s \<Rightarrow> s \<noteq> [])"

definition orString :: "string option \<Rightarrow> string \<Rightarrow> string" where
  "orString v d = (case v of None \<Rightarrow> d | Some s \<Rightarrow> if s \<noteq> [] then s else d)"

text \<open>\<open>v || d\<close> for a number that may be absent: \<open>undefined\<close> and 0 are falsy.\<close>

definition orNumber :: "rat option \<Rightarrow> rat \<Rightarrow> rat" where
  "orNumber v d = (case v of None \<Rightarrow> d | Some a \<Rightarrow> if a \<noteq> 0 then a else d)"

text \<open>An exception that was thrown, with its message.\<close>

datatype Error = Error string

subsection \<open>Array.prototype.sort\<close>

text \<open>
  \<open>sort\<close> is stable (ECMAScript 2019) and reads a comparator result \<open>v\<close> as: \<open>a\<close> before
  \<open>b\<close> when \<open>v < 0\<close>, \<open>b\<close> before \<open>a\<close> when \<open>v > 0\<close>, no preference otherwise; a result
  \<open>NaN\<close> (here \<open>None\<close>) counts as 0. For a consistent comparator the result is determined
  by these rules; the model computes it by stable insertion. For an inconsistent
  comparator the standard leaves the order to the implementation, and the model is one
  such implementation.
\<close>

definition comparatorResult :: "rat option \<Rightarrow> rat" where
  "comparatorResult v = (case v of None \<Rightarrow> 0 | Some r \<Rightarrow> r)"

fun insertBy :: "('a \<Rightarrow> 'a \<Rightarrow> rat option) \<Rightarrow> 'a \<Rightarrow> 'a list \<Rightarrow> 'a list" where
  "insertBy cmp x [] = [x]"
| "insertBy cmp x (y # ys) =
     (if comparatorResult (cmp x y) \<le> 0 then x # y # ys else y # insertBy cmp x ys)"

definition arraySort :: "('a \<Rightarrow> 'a \<Rightarrow> rat option) \<Rightarrow> 'a list \<Rightarrow> 'a list" where
  "arraySort cmp xs = foldr (insertBy cmp) xs []"

section \<open>App.tsx: the expense list\<close>

subsection \<open>handleSaveExpense\<close>

text \<open>
  \<^verbatim>\<open>expenseToSave as Expense\<close> is an unchecked cast. The one caller (the form's
  \<open>handleSubmit\<close>) passes all five data fields, so the cast meets no absent field there;
  the model reads an absent field as the falsy value of its type.
\<close>

definition asExpense :: "PartialExpense \<Rightarrow> Expense" where
  "asExpense p =
     \<lparr> id_e = orString (id_p p) [],
       date = orString (date_p p) [],
       category = orString (category_p p) [],
       amount = orNumber (amount_p p) 0,
       description = orString (description_p p) [],
       paymentMethod = orString (paymentMethod_p p) [] \<rparr>"

text \<open>
  \<open>clock\<close> is the time value that \<^verbatim>\<open>new Date()\<close> reads while the handler runs; the result
  is the list that the updater passed to \<open>setExpenses\<close> computes from \<open>prev\<close>.
\<close>

definition handleSaveExpense :: "int \<Rightarrow> PartialExpense \<Rightarrow> Expense list \<Rightarrow> Expense list" where
  "handleSaveExpense clock expenseToSave prev =
     (if truthy (id_p expenseToSave) then
        (let updatedExpense = asExpense expenseToSave
         in map (\<lambda>e. if id_e e = id_e updatedExpense then updatedExpense else e) prev)
      else
        (let newExpense =
           \<lparr> id_e = toISOString clock,
             date = orString (date_p expenseToSave) (getFormattedDate clock),
             category = orString (category_p expenseToSave) ''Other'',
             amount = orNumber (amount_p expenseToSave) 0,
             description = orString (description_p expenseToSave) [],
             paymentMethod = orString (paymentMethod_p expenseToSave) ''UPI'' \<rparr>
         in newExpense # prev))"

subsection \<open>ExpenseFormModal\<close>

text \<open>
  The state \<open>formData\<close> of the form. The amount is a number or the empty string (\<open>None\<close>).
  \<open>initialData\<close> is \<open>null\<close> (\<open>None\<close>) or a partial Expense; \<open>opened\<close> is the reading of the
  clock when the form is opened.
\<close>

record FormData =
  date_f :: string
  category_f :: string
  amount_f :: "rat option"
  description_f :: string
  paymentMethod_f :: string

definition initialFormData :: "int \<Rightarrow> PartialExpense option \<Rightarrow> FormData" where
  "initialFormData opened initialData =
     \<lparr> date_f = orString (Option.bind initialData date_p) (getFormattedDate opened),
       category_f = orString (Option.bind initialData category_p) (CATEGORIES ! 0),
       amount_f = (case Option.bind initialData amount_p of
                     None \<Rightarrow> None | Some a \<Rightarrow> if a \<noteq> 0 then Some a else None),
       description_f = orString (Option.bind initialData description_p) [],
       paymentMethod_f = orString (Option.bind initialData paymentMethod_p) ''UPI'' \<rparr>"

text \<open>
  A change event of one of the five controls, by the name of the control, with the value
  that \<open>handleChange\<close> stores: \<open>e.target.value\<close>, and for the amount the number
  \<^verbatim>\<open>parseFloat(value)\<close>, or the empty string when the control is empty.
\<close>

datatype ChangeEvent =
    DateChange string
  | CategoryChange string
  | PaymentMethodChange string
  | AmountChange "rat option"
  | DescriptionChange string

fun handleChange :: "ChangeEvent \<Rightarrow> FormData \<Rightarrow> FormData" where
  "handleChange (DateChange v) prev = prev\<lparr> date_f := v \<rparr>"
| "handleChange (CategoryChange v) prev = prev\<lparr> category_f := v \<rparr>"
| "handleChange (PaymentMethodChange v) prev = prev\<lparr> paymentMethod_f := v \<rparr>"
| "handleChange (AmountChange v) prev = prev\<lparr> amount_f := v \<rparr>"
| "handleChange (DescriptionChange v) prev = prev\<lparr> description_f := v \<rparr>"


text \<open>The state of the form after a sequence of change events.\<close>

definition formAfter :: "int \<Rightarrow> PartialExpense option \<Rightarrow> ChangeEvent list \<Rightarrow> FormData" where
  "formAfter opened initialData changes =
     foldl (\<lambda>formData e. handleChange e formData) (initialFormData opened initialData) changes"





subsection \<open>filteredExpenses\<close>

text \<open>\<open>filterCategory\<close> is \<open>'All'\<close> or a category; \<open>filterDate\<close> is a date or the empty string.\<close>

definition categoryFilter :: "string \<Rightarrow> Expense \<Rightarrow> bool" where
  "categoryFilter filterCategory e = (filterCategory = ''All'' \<or> category e = filterCategory)"

definition dateFilter :: "string \<Rightarrow> Expense \<Rightarrow> bool" where
  "dateFilter filterDate e = (filterDate = [] \<or> date e = filterDate)"

text \<open>The comparator of the \<open>sort\<close> call; a difference of time values is \<open>NaN\<close> when either is.\<close>

definition dateDifference :: "Expense \<Rightarrow> Expense \<Rightarrow> rat option" where
  "dateDifference a b =
     (case (dateTime (date b), dateTime (date a)) of
        (Some tb, Some ta) \<Rightarrow> Some (fsub (of_int tb) (of_int ta))
      | _ \<Rightarrow> None)"

definition compareExpenses :: "SortOption \<Rightarrow> Expense \<Rightarrow> Expense \<Rightarrow> rat option" where
  "compareExpenses sortOption a b =
     (if sortOption = Amount then Some (fsub (amount b) (amount a)) else dateDifference a b)"

definition filteredExpenses :: "string \<Rightarrow> string \<Rightarrow> SortOption \<Rightarrow> Expense list \<Rightarrow> Expense list" where
  "filteredExpenses filterCategory filterDate sortOption expenses =
     arraySort (compareExpenses sortOption)
       (filter (dateFilter filterDate) (filter (categoryFilter filterCategory) expenses))"

text \<open>
  The same pipeline over a store of arrays, to follow which array each call writes:
  \<open>filter\<close> allocates a new array, \<open>sort\<close> sorts the array it is called on in place and
  returns it. An address below \<open>used\<close> holds an allocated array.
\<close>

record Store =
  cells :: "nat \<Rightarrow> Expense list"
  used :: nat

definition storeFilter :: "(Expense \<Rightarrow> bool) \<Rightarrow> nat \<Rightarrow> Store \<Rightarrow> nat \<times> Store" where
  "storeFilter P a s =
     (used s, s\<lparr> cells := (cells s)(used s := filter P (cells s a)), used := Suc (used s) \<rparr>)"

definition storeSort :: "(Expense \<Rightarrow> Expense \<Rightarrow> rat option) \<Rightarrow> nat \<Rightarrow> Store \<Rightarrow> nat \<times> Store" where
  "storeSort cmp a s = (a, s\<lparr> cells := (cells s)(a := arraySort cmp (cells s a)) \<rparr>)"

definition filteredExpensesIn :: "string \<Rightarrow> string \<Rightarrow> SortOption \<Rightarrow> nat \<Rightarrow> Store \<Rightarrow> nat \<times> Store" where
  "filteredExpensesIn filterCategory filterDate sortOption expenses s =
     (let (a1, s1) = storeFilter (categoryFilter filterCategory) expenses s;
          (a2, s2) = storeFilter (dateFilter filterDate) a1 s1
      in storeSort (compareExpenses sortOption) a2 s2)"

subsection \<open>pieChartData\<close>

text \<open>
  The object \<open>categoryTotals\<close> is a list of key-value pairs in the order the keys were
  first written, which is the order \<open>Object.entries\<close> lists keys that are not array
  indices (no category name is one).
\<close>

fun objectSet :: "string \<Rightarrow> rat \<Rightarrow> (string \<times> rat) list \<Rightarrow> (string \<times> rat) list" where
  "objectSet k v [] = [(k, v)]"
| "objectSet k v ((k', v') # kvs) =
     (if k' = k then (k, v) # kvs else (k', v') # objectSet k v kvs)"

definition addToCategory :: "(string \<times> rat) list \<Rightarrow> Expense \<Rightarrow> (string \<times> rat) list" where
  "addToCategory categoryTotals e =
     objectSet (category e) (fadd (orNumber (map_of categoryTotals (category e)) 0) (amount e)) categoryTotals"

record CategoryTotal =
  name_c :: string
  value_c :: rat

definition pieChartData :: "Expense list \<Rightarrow> CategoryTotal list" where
  "pieChartData shown =
     map (\<lambda>(n, v). \<lparr> name_c = n, value_c = v \<rparr>) (foldl addToCategory [] shown)"

subsection \<open>weeklyTrendData\<close>

record WeeklyBucket =
  name_b :: string
  date_b :: string
  amount_b :: rat

definition weekdayShort :: "int \<Rightarrow> string" where
  "weekdayShort w =
     (if w = 0 then ''Sun'' else if w = 1 then ''Mon'' else if w = 2 then ''Tue''
      else if w = 3 then ''Wed'' else if w = 4 then ''Thu'' else if w = 5 then ''Fri'' else ''Sat'')"

text \<open>
  \<^verbatim>\<open>toLocaleDateString('en-US', { weekday: 'short' })\<close> names the day of the week of the
  local date, \<^verbatim>\<open>toISOString().split('T')[0]\<close> prints the UTC date.
\<close>

definition newBucket :: "Zone \<Rightarrow> int \<Rightarrow> int \<Rightarrow> WeeklyBucket" where
  "newBucket z today i =
     (let d = setDate z today (getDate z today - i)
      in \<lparr> name_b = weekdayShort (getDay z d), date_b = splitT0 (toISOString d), amount_b = 0 \<rparr>)"

text \<open>\<^verbatim>\<open>const day = last7Days.find(...); if (day) day.amount += expense.amount\<close>\<close>

fun addToDay :: "Expense \<Rightarrow> WeeklyBucket list \<Rightarrow> WeeklyBucket list" where
  "addToDay expense [] = []"
| "addToDay expense (d # ds) =
     (if date_b d = date expense then d\<lparr> amount_b := fadd (amount_b d) (amount expense) \<rparr> # ds
      else d # addToDay expense ds)"

definition weeklyTrendData :: "Zone \<Rightarrow> int \<Rightarrow> Expense list \<Rightarrow> WeeklyBucket list" where
  "weeklyTrendData z today expenses =
     (let last7Days = rev (map (newBucket z today) [0, 1, 2, 3, 4, 5, 6])
      in foldl (\<lambda>days expense. addToDay expense days) last7Days expenses)"

section \<open>App.tsx: ReportsModal\<close>

datatype Period = ThisWeek | LastWeek | ThisMonth | LastMonth

record Report =
  title :: string
  expenses_r :: "Expense list"

record ReportsModal =
  report :: "Report option"

text \<open>\<^verbatim>\<open>toLocaleString('default', { month: 'long' })\<close>, the host's locale taken to be English.\<close>

definition monthLong :: "int \<Rightarrow> string" where
  "monthLong m =
     (if m = 0 then ''January'' else if m = 1 then ''February'' else if m = 2 then ''March''
      else if m = 3 then ''April'' else if m = 4 then ''May'' else if m = 5 then ''June''
      else if m = 6 then ''July'' else if m = 7 then ''August'' else if m = 8 then ''September''
      else if m = 9 then ''October'' else if m = 10 then ''November'' else ''December'')"

text \<open>
  The first half of \<open>generateReport\<close> (the \<open>switch\<close> and the two calls of
  \<open>getFormattedDate\<close>): the title, \<open>startStr\<close> and \<open>endStr\<close>. \<open>now\<close> is the time value
  that \<^verbatim>\<open>new Date()\<close> reads.
\<close>

definition reportRange :: "Zone \<Rightarrow> int \<Rightarrow> Period \<Rightarrow> string \<times> string \<times> string" where
  "reportRange z now period =
     (let (title, startDate, endDate) =
        (case period of
           ThisMonth \<Rightarrow>
             (''Report for '' @ monthLong (getMonth z now),
              newDate z (getFullYear z now) (getMonth z now) 1,
              now)
         | LastMonth \<Rightarrow>
             (let startDate = newDate z (getFullYear z now) (getMonth z now - 1) 1
              in (''Report for '' @ monthLong (getMonth z startDate),
                  startDate,
                  newDate z (getFullYear z now) (getMonth z now) 0))
         | ThisWeek \<Rightarrow>
             (''This Week Report'',
              setDate z now (getDate z now - getDay z now),
              now)
         | LastWeek \<Rightarrow>
             (let endDate = setDate z now (getDate z now - getDay z now - 1)
              in (''Last Week Report'',
                  setDate z endDate (getDate z endDate - 6),
                  endDate)))
      in (title, getFormattedDate startDate, getFormattedDate endDate))"

definition generateReport :: "Zone \<Rightarrow> int \<Rightarrow> Expense list \<Rightarrow> Period \<Rightarrow> ReportsModal \<Rightarrow> ReportsModal" where
  "generateReport z now expenses period st =
     (let (title, startStr, endStr) = reportRange z now period;
          filteredExpenses =
            arraySort dateDifference (filter (\<lambda>e. startStr \<le> date e \<and> date e \<le> endStr) expenses)
      in st\<lparr> report := Some \<lparr> title = title, expenses_r = filteredExpenses \<rparr> \<rparr>)"

section \<open>The Gemini service module\<close>

text \<open>
  The remote model is the environment: an awaited call of \<open>generateContent\<close> either
  rejects or resolves to a response. \<open>JSON.parse\<close> is a parameter that yields the parsed
  value, or \<open>None\<close> where it throws a SyntaxError. A parsed object is the list of its
  properties.
\<close>

datatype 'a Promise = Rejected | Resolved 'a

datatype json = JNull | JBool bool | JNum rat | JStr string | JArr "json list" | JObj "(string \<times> json) list"

subsection \<open>getSavingTips\<close>

text \<open>
  The prompt is a function of the expenses and nothing but the remote call reads it, so
  the call is a function of the expense list. \<open>Inl\<close> would be an exception that leaves
  the function.
\<close>

definition getSavingTips :: "string option \<Rightarrow> (Expense list \<Rightarrow> string Promise) \<Rightarrow> Expense list \<Rightarrow> Error + string" where
  "getSavingTips API_KEY generateContent expenses =
     (if \<not> truthy API_KEY then
        Inr ''Smart suggestions are currently unavailable. Please configure your Gemini API key.''
      else if length expenses = 0 then
        Inr ''No expenses recorded yet. Add some expenses to get personalized savings tips!''
      else
        (case generateContent expenses of
           Resolved response_text \<Rightarrow> Inr response_text
         | Rejected \<Rightarrow>
             Inr ''Sorry, I couldn't generate savings tips at the moment. Please try again later.''))"

subsection \<open>extractExpenseFromImage\<close>












section \<open>Notions the properties are stated with\<close>

text \<open>
  The keys of a list in the order of their first occurrence: what "insertion order"
  means for the categories of an expense sequence.
\<close>

fun firstOccurrences :: "'a list \<Rightarrow> 'a list" where
  "firstOccurrences [] = []"
| "firstOccurrences (x # xs) = x # removeAll x (firstOccurrences xs)"

text \<open>
  The sum of a sequence of numbers as JavaScript computes it: from 0, adding the elements
  from left to right, each addition rounded (\<^verbatim>\<open>xs.reduce((s, x) => s + x, 0)\<close>).
\<close>

definition fsum :: "rat list \<Rightarrow> rat" where
  "fsum xs = foldl fadd 0 xs"

text \<open>The sum of the amounts of the expenses of \<open>L\<close> in category \<open>c\<close>, in the order of \<open>L\<close>.\<close>

definition categoryTotal :: "Category \<Rightarrow> Expense list \<Rightarrow> rat" where
  "categoryTotal c L = fsum (map amount (filter (\<lambda>e. category e = c) L))"




text \<open>
  A reading of the system clock: a time value not before the epoch and within the range
  of Date (8.64e15 milliseconds either side of the epoch).
\<close>

definition clockReading :: "int \<Rightarrow> bool" where
  "clockReading t = (0 \<le> t \<and> t \<le> 8640000000000000)"

text \<open>The sum of the amounts of the expenses of \<open>L\<close> dated \<open>d\<close>, in the order of \<open>L\<close>.\<close>

definition dayTotal :: "string \<Rightarrow> Expense list \<Rightarrow> rat" where
  "dayTotal d L = fsum (map amount (filter (\<lambda>e. date e = d) L))"

text \<open>
  The time value of the date of an expense; 0 stands in where the date is invalid (the
  properties that use it are about valid dates).
\<close>

definition timeOf :: "Expense \<Rightarrow> int" where
  "timeOf e = (case dateTime (date e) of Some t \<Rightarrow> t | None \<Rightarrow> 0)"

text \<open>The range of a report, and whether an expense lies in it.\<close>

definition reportStart :: "Zone \<Rightarrow> int \<Rightarrow> Period \<Rightarrow> string" where
  "reportStart z now period = fst (snd (reportRange z now period))"

definition reportEnd :: "Zone \<Rightarrow> int \<Rightarrow> Period \<Rightarrow> string" where
  "reportEnd z now period = snd (snd (reportRange z now period))"

definition inReport :: "Zone \<Rightarrow> int \<Rightarrow> Period \<Rightarrow> Expense \<Rightarrow> bool" where
  "inReport z now period e = (reportStart z now period \<le> date e \<and> date e \<le> reportEnd z now period)"

section \<open>Sample data\<close>

text \<open>
  Three time zones: UTC itself, India, five and a half hours ahead of UTC all year, and
  New York as it was in 2024, five hours behind UTC and four hours behind while daylight
  saving time is in force, from 10 March 07:00 UTC (when local time goes from 02:00 to
  03:00) to 3 November 06:00 UTC (when it goes from 02:00 back to 01:00).
\<close>

definition zoneUTC :: Zone where
  "zoneUTC = fixedZone 0"

definition India :: Zone where
  "India = fixedZone 19800000"

definition NewYork :: Zone where
  "NewYork =
     \<lparr> atUTC = (\<lambda>t. if 1710054000000 \<le> t \<and> t < 1730613600000 then - 14400000 else - 18000000),
       atLocal = (\<lambda>t. if 1710039600000 \<le> t \<and> t < 1730599200000 then - 14400000 else - 18000000) \<rparr>"

definition sampleExpense :: Expense where
  "sampleExpense =
     \<lparr> id_e = ''2024-03-15T06:30:00.000Z'', date = ''2024-03-15'', category = ''Food'',
       amount = 120, description = ''Lunch'', paymentMethod = ''UPI'' \<rparr>"

definition busExpense :: Expense where
  "busExpense =
     \<lparr> id_e = ''2024-03-14T09:00:00.000Z'', date = ''2024-03-14'', category = ''Transport'',
       amount = 45, description = ''Bus'', paymentMethod = ''Cash'' \<rparr>"

definition twoExpenses :: "Expense list" where
  "twoExpenses = [busExpense, sampleExpense]"

definition sampleStore :: Store where
  "sampleStore = \<lparr> cells = (\<lambda>_. [])(0 := [sampleExpense]), used = 1 \<rparr>"

definition samplePartial :: PartialExpense where
  "samplePartial =
     \<lparr> id_p = None, date_p = Some ''2024-03-14'', category_p = Some ''Transport'',
       amount_p = Some 45, description_p = Some ''Bus'', paymentMethod_p = Some ''Cash'' \<rparr>"

definition sampleEdit :: PartialExpense where
  "sampleEdit =
     \<lparr> id_p = Some ''2024-03-15T06:30:00.000Z'', date_p = Some ''2024-03-15'', category_p = Some ''Food'',
       amount_p = Some 150, description_p = Some ''Lunch and tea'', paymentMethod_p = Some ''UPI'' \<rparr>"



text \<open>The stored sample Expense as the form receives it for an edit, and the edit.\<close>

definition sampleOpened :: PartialExpense where
  "sampleOpened =
     \<lparr> id_p = Some ''2024-03-15T06:30:00.000Z'', date_p = Some ''2024-03-15'', category_p = Some ''Food'',
       amount_p = Some 120, description_p = Some ''Lunch'', paymentMethod_p = Some ''UPI'' \<rparr>"

definition editChanges :: "ChangeEvent list" where
  "editChanges = [AmountChange (Some 150), DescriptionChange ''Lunch and tea'']"





definition scenarioExpenses :: "Expense list" where
  "scenarioExpenses =
     [\<lparr> id_e = ''a'', date = ''2024-01-01'', category = ''Food'', amount = 100,
         description = ''Dinner'', paymentMethod = ''UPI'' \<rparr>,
      \<lparr> id_e = ''b'', date = ''2024-01-01'', category = ''Transport'', amount = 50,
         description = ''Taxi'', paymentMethod = ''Cash'' \<rparr>]"

text \<open>
  Three expenses with the amounts 0.1, 0.1 and 1.1: the number that a decimal numeral
  denotes is the double nearest to it.
\<close>

definition floatExpenses :: "Expense list" where
  "floatExpenses =
     [\<lparr> id_e = ''a'', date = ''2024-01-01'', category = ''Food'', amount = roundDouble (1 / 10),
         description = ''Tea'', paymentMethod = ''UPI'' \<rparr>,
      \<lparr> id_e = ''b'', date = ''2024-01-01'', category = ''Transport'', amount = roundDouble (1 / 10),
         description = ''Toll'', paymentMethod = ''Cash'' \<rparr>,
      \<lparr> id_e = ''c'', date = ''2024-01-02'', category = ''Food'', amount = roundDouble (11 / 10),
         description = ''Bun'', paymentMethod = ''UPI'' \<rparr>]"

chapter \<open>Properties\<close>

section \<open>The gateway functions\<close>

text \<open>
  Claim C9. \<open>getSavingTips\<close> never throws: for every credential, remote outcome and
  expense list it returns a string. Without a credential the string is the fixed
  "unavailable" message; with a credential and an empty list it is the fixed "add
  expenses" message; with a credential and a non-empty list it is the fixed apology when
  the remote call fails and the response text when it succeeds. The guards are tested in
  this order, as in the source.
\<close>

theorem getSavingTips_never_throws:
  "(\<exists>s. getSavingTips API_KEY generateContent expenses = Inr s)
   \<and> (\<not> truthy API_KEY \<longrightarrow>
        getSavingTips API_KEY generateContent expenses =
          Inr ''Smart suggestions are currently unavailable. Please configure your Gemini API key.'')
   \<and> (truthy API_KEY \<and> expenses = [] \<longrightarrow>
        getSavingTips API_KEY generateContent expenses =
          Inr ''No expenses recorded yet. Add some expenses to get personalized savings tips!'')
   \<and> (truthy API_KEY \<and> expenses \<noteq> [] \<and> generateContent expenses = Rejected \<longrightarrow>
        getSavingTips API_KEY generateContent expenses =
          Inr ''Sorry, I couldn't generate savings tips at the moment. Please try again later.'')
   \<and> (truthy API_KEY \<and> expenses \<noteq> [] \<and> generateContent expenses = Resolved response_text \<longrightarrow>
        getSavingTips API_KEY generateContent expenses = Inr response_text)"
  by (cases "generateContent expenses") (simp_all add: getSavingTips_def)

theorem getSavingTips_never_throws_witness:
  "getSavingTips None (\<lambda>_. Rejected) [sampleExpense] =
     Inr ''Smart suggestions are currently unavailable. Please configure your Gemini API key.''
   \<and> getSavingTips (Some ''key'') (\<lambda>_. Rejected) [] =
     Inr ''No expenses recorded yet. Add some expenses to get personalized savings tips!''
   \<and> getSavingTips (Some ''key'') (\<lambda>_. Rejected) [sampleExpense] =
     Inr ''Sorry, I couldn't generate savings tips at the moment. Please try again later.''
   \<and> getSavingTips (Some ''key'') (\<lambda>_. Resolved ''Cook at home.'') [sampleExpense] = Inr ''Cook at home.''"
  using getSavingTips_never_throws [of None "\<lambda>_. Rejected" "[sampleExpense]"]
        getSavingTips_never_throws [of "Some ''key''" "\<lambda>_. Rejected" "[]"]
        getSavingTips_never_throws [of "Some ''key''" "\<lambda>_. Rejected" "[sampleExpense]"]
        getSavingTips_never_throws [of "Some ''key''" "\<lambda>_. Resolved ''Cook at home.''" "[sampleExpense]" "''Cook at home.''"]
  by (simp add: truthy_def)

subsection \<open>Evaluations used by the examples\<close>


lemma getFormattedDate_sample: "getFormattedDate 1710484200000 = ''2024-03-15''"
  by code_simp



subsection \<open>extractExpenseFromImage\<close>








section \<open>Saving an expense\<close>

lemma handleSaveExpense_create:
  "\<not> truthy (id_p p) \<Longrightarrow>
   handleSaveExpense clock p prev =
     \<lparr> id_e = toISOString clock,
       date = orString (date_p p) (getFormattedDate clock),
       category = orString (category_p p) ''Other'',
       amount = orNumber (amount_p p) 0,
       description = orString (description_p p) [],
       paymentMethod = orString (paymentMethod_p p) ''UPI'' \<rparr> # prev"
  by (simp add: handleSaveExpense_def)

lemma handleSaveExpense_edit:
  "truthy (id_p p) \<Longrightarrow>
   handleSaveExpense clock p prev = map (\<lambda>e. if id_e e = id_e (asExpense p) then asExpense p else e) prev"
  by (simp add: handleSaveExpense_def Let_def)

lemma asExpense_id: "truthy (id_p p) \<Longrightarrow> id_p p = Some (id_e (asExpense p))"
  by (auto simp: truthy_def asExpense_def orString_def split: option.splits)


text \<open>
  Claim C10. A save without an id puts one new Expense at the head of the list and keeps
  the old list behind it. A save with an id keeps the length of the list; at each position
  it stores the submitted Expense where the stored id is the submitted id and keeps the
  stored Expense everywhere else; when no stored Expense has the id the list is unchanged.
\<close>

theorem handleSaveExpense_frame:
  "(\<not> truthy (id_p p) \<longrightarrow>
      (\<exists>newExpense. handleSaveExpense clock p prev = newExpense # prev))
   \<and> (truthy (id_p p) \<longrightarrow>
      length (handleSaveExpense clock p prev) = length prev
      \<and> (\<forall>k < length prev.
            (id_p p = Some (id_e (prev ! k)) \<longrightarrow> handleSaveExpense clock p prev ! k = asExpense p)
          \<and> (id_p p \<noteq> Some (id_e (prev ! k)) \<longrightarrow> handleSaveExpense clock p prev ! k = prev ! k))
      \<and> ((\<forall>e \<in> set prev. id_p p \<noteq> Some (id_e e)) \<longrightarrow> handleSaveExpense clock p prev = prev))"
proof (cases "truthy (id_p p)")
  case False
  then show ?thesis by (simp add: handleSaveExpense_create)
next
  case True
  note i = asExpense_id [OF True]
  let ?f = "\<lambda>e. if id_e e = id_e (asExpense p) then asExpense p else e"
  have e: "handleSaveExpense clock p prev = map ?f prev"
    using True by (rule handleSaveExpense_edit)
  have len: "length (map ?f prev) = length prev"
    by simp
  have nth: "\<forall>k < length prev.
            (id_p p = Some (id_e (prev ! k)) \<longrightarrow> map ?f prev ! k = asExpense p)
          \<and> (id_p p \<noteq> Some (id_e (prev ! k)) \<longrightarrow> map ?f prev ! k = prev ! k)"
    using i by auto
  have same: "(\<forall>e \<in> set prev. id_p p \<noteq> Some (id_e e)) \<longrightarrow> map ?f prev = prev"
  proof
    assume a: "\<forall>e \<in> set prev. id_p p \<noteq> Some (id_e e)"
    have "\<And>e. e \<in> set prev \<Longrightarrow> id_e e \<noteq> id_e (asExpense p)"
      using a i by auto
    then show "map ?f prev = prev"
      by (induction prev) auto
  qed
  show ?thesis
    unfolding e using True len nth same by blast
qed

theorem handleSaveExpense_frame_witness:
  "\<not> truthy (id_p samplePartial)
   \<and> (\<exists>newExpense. handleSaveExpense 1710484200000 samplePartial [sampleExpense] = newExpense # [sampleExpense])
   \<and> truthy (id_p sampleEdit)
   \<and> (0::nat) < length [sampleExpense]
   \<and> id_p sampleEdit = Some (id_e ([sampleExpense] ! 0))
   \<and> handleSaveExpense 1710484200000 sampleEdit [sampleExpense] ! 0 = asExpense sampleEdit
   \<and> length (handleSaveExpense 1710484200000 sampleEdit [sampleExpense]) = 1"
  using handleSaveExpense_frame [of samplePartial 1710484200000 "[sampleExpense]"]
        handleSaveExpense_frame [of sampleEdit 1710484200000 "[sampleExpense]"]
  by (simp add: truthy_def samplePartial_def sampleEdit_def sampleExpense_def)

subsection \<open>The form\<close>

















lemma editForm:
  "formAfter 1710484200000 (Some sampleOpened) editChanges =
     \<lparr> date_f = ''2024-03-15'', category_f = ''Food'', amount_f = Some 150,
       description_f = ''Lunch and tea'', paymentMethod_f = ''UPI'' \<rparr>"
  by (simp add: formAfter_def initialFormData_def editChanges_def sampleOpened_def orString_def)







section \<open>Numbers\<close>

text \<open>\<open>binade x\<close> is not above the binary logarithm of \<open>x\<close>, so a number that is not 0 is not rounded to 0.\<close>

lemma binade_lower:
  assumes "0 < x"
  shows "2 powi (binade x) \<le> x"
proof -
  obtain p q where pq: "quotient_of x = (p, q)" by (cases "quotient_of x")
  have q: "0 < q" using pq by (rule quotient_of_denom_pos)
  have x: "x = of_int p / of_int q" using pq by (rule quotient_of_div)
  have p: "0 < p"
    using assms q x by (simp add: zero_less_divide_iff)
  define k where "k = bitlen p - bitlen q"
  show ?thesis
  proof (cases "2 powi k \<le> x")
    case True
    then show ?thesis by (simp add: binade_def pq k_def)
  next
    case False
    have b: "binade x = k - 1"
      using False by (simp add: binade_def pq k_def)
    have bp: "1 \<le> bitlen p"
      using p bitlen_eq_zero_iff [of p] bitlen_nonneg [of p] by linarith
    have lo: "(2::rat) ^ nat (bitlen p - 1) \<le> of_int p"
    proof -
      have "(2::int) ^ nat (bitlen p - 1) \<le> p"
        using bitlen_bounds [OF p] by simp
      then have "(of_int (2 ^ nat (bitlen p - 1)) :: rat) \<le> of_int p"
        by (simp only: of_int_le_iff)
      then show ?thesis by simp
    qed
    have hi: "of_int q \<le> (2::rat) ^ nat (bitlen q)"
    proof -
      have "q \<le> (2::int) ^ nat (bitlen q)"
        using bitlen_bounds [OF q] by simp
      then have "(of_int q :: rat) \<le> of_int (2 ^ nat (bitlen q))"
        by (simp only: of_int_le_iff)
      then show ?thesis by simp
    qed
    have e: "(2::rat) powi (k - 1) = 2 ^ nat (bitlen p - 1) / 2 ^ nat (bitlen q)"
    proof -
      have "k - 1 = int (nat (bitlen p - 1)) - int (nat (bitlen q))"
        using bp bitlen_nonneg [of q] by (simp add: k_def)
      then have "(2::rat) powi (k - 1) = 2 powi (int (nat (bitlen p - 1)) - int (nat (bitlen q)))"
        by simp
      also have "\<dots> = 2 powi int (nat (bitlen p - 1)) / 2 powi int (nat (bitlen q))"
        by (rule power_int_diff) simp
      finally show ?thesis by (simp only: power_int_of_nat)
    qed
    have "(2::rat) ^ nat (bitlen p - 1) / 2 ^ nat (bitlen q) \<le> of_int p / of_int q"
      using lo hi q p by (intro frac_le) simp_all
    then have "(2::rat) powi (k - 1) \<le> of_int p / of_int q"
      by (simp only: e)
    then have "(2::rat) powi (k - 1) \<le> x"
      by (simp only: x)
    then show ?thesis
      by (simp only: b)
  qed
qed

lemma roundHalfEven_pos: "1 \<le> y \<Longrightarrow> 1 \<le> roundHalfEven y"
proof -
  assume "1 \<le> y"
  then have "1 \<le> \<lfloor>y\<rfloor>" by simp
  then show ?thesis by (simp add: roundHalfEven_def Let_def)
qed

lemma roundDouble_pos:
  assumes "0 < x"
  shows "0 < roundDouble x"
proof -
  define e where "e = binade x - 52"
  have pe: "(0::rat) < 2 powi e" by simp
  have "2 powi e * 2 powi 52 = (2::rat) powi (binade x)"
    unfolding e_def by (simp add: power_int_diff)
  then have "2 powi e * 2 powi 52 \<le> x"
    using binade_lower [OF assms] by simp
  moreover have "(1::rat) \<le> 2 powi 52" by simp
  ultimately have "2 powi e * 1 \<le> x"
    using pe by (meson dual_order.trans mult_left_mono less_imp_le)
  then have "1 \<le> x / 2 powi e"
    using pe by (simp add: pos_le_divide_eq mult.commute)
  then have "1 \<le> roundHalfEven (x / 2 powi e)"
    by (rule roundHalfEven_pos)
  then have "(0::rat) < of_int (roundHalfEven (x / 2 powi e))"
    by simp
  then have "(0::rat) < of_int (roundHalfEven (x / 2 powi e)) * 2 powi e"
    using pe by (rule mult_pos_pos)
  then show ?thesis
    using assms by (simp add: roundDouble_def e_def Let_def)
qed

lemma roundDouble_minus: "roundDouble (- x) = - roundDouble x"
  by (simp add: roundDouble_def Let_def)

lemma roundDouble_sign: "(roundDouble x \<le> 0) = (x \<le> 0)"
proof (cases "0 < x")
  case True
  then show ?thesis using roundDouble_pos [OF True] by simp
next
  case False
  show ?thesis
  proof (cases "x = 0")
    case True
    then show ?thesis by (simp add: roundDouble_def)
  next
    case nz: False
    then have "0 < - x" using False by simp
    then have "0 < roundDouble (- x)" by (rule roundDouble_pos)
    then show ?thesis using False by (simp add: roundDouble_minus)
  qed
qed

lemma fsub_sign: "(fsub a b \<le> 0) = (a \<le> b)"
  by (simp add: fsub_def roundDouble_sign)

section \<open>Array.prototype.sort\<close>

lemma mset_insertBy: "mset (insertBy cmp x ys) = add_mset x (mset ys)"
  by (induction ys) simp_all

lemma mset_arraySort: "mset (arraySort cmp xs) = mset xs"
  unfolding arraySort_def by (induction xs) (simp_all add: mset_insertBy)

lemma set_arraySort: "set (arraySort cmp xs) = set xs"
  using mset_arraySort [of cmp xs] by (metis set_mset_mset)

lemma length_arraySort: "length (arraySort cmp xs) = length xs"
  using mset_arraySort [of cmp xs] by (metis size_mset)

text \<open>
  When the comparator orders by a key, that is when its result is at most 0 exactly for
  \<open>f x \<le> f y\<close>, \<open>arraySort\<close> is the library's stable insertion sort by that key.
\<close>

lemma insertBy_insort_key:
  assumes "\<And>y. y \<in> set ys \<Longrightarrow> (comparatorResult (cmp x y) \<le> 0) = (f x \<le> f y)"
  shows "insertBy cmp x ys = insort_key f x ys"
  using assms by (induction ys) simp_all

lemma arraySort_sort_key:
  assumes "\<And>x y. x \<in> set xs \<Longrightarrow> y \<in> set xs \<Longrightarrow> (comparatorResult (cmp x y) \<le> 0) = (f x \<le> f y)"
  shows "arraySort cmp xs = sort_key f xs"
  using assms
proof (induction xs)
  case Nil
  show ?case by (simp add: arraySort_def)
next
  case (Cons a xs)
  have IH: "arraySort cmp xs = sort_key f xs"
    using Cons by simp
  have "insertBy cmp a (sort_key f xs) = insort_key f a (sort_key f xs)"
    by (rule insertBy_insort_key) (simp add: Cons.prems)
  then show ?case
    using IH by (simp add: arraySort_def)
qed

lemma sorted_map_uminus:
  "sorted (map (\<lambda>e. - (f e :: 'b :: linordered_idom)) xs) = sorted_wrt (\<lambda>a b. f b \<le> f a) xs"
  by (induction xs) auto

section \<open>The filter pipeline\<close>

lemma filteredExpensesIn_result:
  assumes "expenses < used s"
  shows "filteredExpensesIn fc fd so expenses s = (r, s') \<Longrightarrow>
         cells s' r = filteredExpenses fc fd so (cells s expenses)
         \<and> (\<forall>b < used s. cells s' b = cells s b)"
  using assms
  by (auto simp: filteredExpensesIn_def storeFilter_def storeSort_def filteredExpenses_def Let_def)

text \<open>
  Claim C3. For every expense list \<open>L\<close>, category filter and date filter, the pipeline
  returns the expenses of \<open>L\<close> that pass both filters, each as often as \<open>L\<close> holds it:
  the result is a part of \<open>L\<close>, every element passes both filters, and its length is the
  number of elements of \<open>L\<close> that pass both. The input is not mutated: run on a store of
  arrays in which \<open>L\<close> is the array at address \<open>a\<close>, the pipeline leaves that array and
  every other array allocated before the call as it was, and its result is a new array.
\<close>

theorem filteredExpenses_exact:
  "mset (filteredExpenses fc fd so L) = mset (filter (\<lambda>e. categoryFilter fc e \<and> dateFilter fd e) L)
   \<and> set (filteredExpenses fc fd so L) \<subseteq> set L
   \<and> (\<forall>e \<in> set (filteredExpenses fc fd so L). categoryFilter fc e \<and> dateFilter fd e)
   \<and> length (filteredExpenses fc fd so L) = length (filter (\<lambda>e. categoryFilter fc e \<and> dateFilter fd e) L)
   \<and> (\<forall>s a. a < used s \<and> cells s a = L \<longrightarrow>
         cells (snd (filteredExpensesIn fc fd so a s)) (fst (filteredExpensesIn fc fd so a s))
           = filteredExpenses fc fd so L
         \<and> used s \<le> fst (filteredExpensesIn fc fd so a s)
         \<and> (\<forall>b < used s. cells (snd (filteredExpensesIn fc fd so a s)) b = cells s b))"
proof -
  have m: "mset (filteredExpenses fc fd so L) = mset (filter (\<lambda>e. categoryFilter fc e \<and> dateFilter fd e) L)"
    by (simp add: filteredExpenses_def mset_arraySort conj_commute)
  have s: "set (filteredExpenses fc fd so L) = {e \<in> set L. categoryFilter fc e \<and> dateFilter fd e}"
    using m by (metis set_mset_mset set_filter)
  have l: "length (filteredExpenses fc fd so L) = length (filter (\<lambda>e. categoryFilter fc e \<and> dateFilter fd e) L)"
    using m by (metis size_mset)
  have st: "\<forall>s a. a < used s \<and> cells s a = L \<longrightarrow>
         cells (snd (filteredExpensesIn fc fd so a s)) (fst (filteredExpensesIn fc fd so a s))
           = filteredExpenses fc fd so L
         \<and> (\<forall>b < used s. cells (snd (filteredExpensesIn fc fd so a s)) b = cells s b)"
    using filteredExpensesIn_result by (metis prod.collapse)
  have fresh: "\<forall>s a. used s \<le> fst (filteredExpensesIn fc fd so a s)"
    by (simp add: filteredExpensesIn_def storeFilter_def storeSort_def Let_def)
  show ?thesis using m s l st fresh by blast
qed

theorem filteredExpenses_exact_witness:
  "sampleExpense \<in> set [sampleExpense]
   \<and> categoryFilter ''Food'' sampleExpense \<and> dateFilter [] sampleExpense
   \<and> 0 < used sampleStore \<and> cells sampleStore 0 = [sampleExpense]
   \<and> filteredExpenses ''Food'' [] Latest [sampleExpense] = [sampleExpense]
   \<and> cells (snd (filteredExpensesIn ''Food'' [] Latest 0 sampleStore)) 0 = cells sampleStore 0"
proof -
  have f: "filteredExpenses ''Food'' [] Latest [sampleExpense] = [sampleExpense]"
    by (simp add: filteredExpenses_def categoryFilter_def dateFilter_def sampleExpense_def arraySort_def)
  have u: "0 < used sampleStore \<and> cells sampleStore 0 = [sampleExpense]"
    by (simp add: sampleStore_def)
  show ?thesis
    using filteredExpenses_exact [of "''Food''" "[]" Latest "[sampleExpense]"] f u
    by auto
qed

section \<open>Category aggregation\<close>

lemma set_firstOccurrences: "set (firstOccurrences xs) = set xs"
  by (induction xs) auto

lemma distinct_firstOccurrences: "distinct (firstOccurrences xs)"
  by (induction xs) (auto simp: distinct_removeAll)

lemma firstOccurrences_snoc:
  "firstOccurrences (xs @ [x]) = (if x \<in> set xs then firstOccurrences xs else firstOccurrences xs @ [x])"
  by (induction xs) auto

lemma map_fst_objectSet:
  "map fst (objectSet k v kvs) = (if k \<in> fst ` set kvs then map fst kvs else map fst kvs @ [k])"
  by (induction kvs) force+

lemma map_of_objectSet: "map_of (objectSet k v kvs) = (map_of kvs)(k \<mapsto> v)"
  by (induction kvs) (auto simp: fun_eq_iff)

lemma orNumber_0: "orNumber v 0 = (case v of None \<Rightarrow> 0 | Some a \<Rightarrow> a)"
  by (simp add: orNumber_def split: option.splits)

text \<open>One step of the loop.\<close>

lemma keys_addToCategory:
  "map fst (addToCategory acc e) =
     (if category e \<in> fst ` set acc then map fst acc else map fst acc @ [category e])"
  by (simp add: addToCategory_def map_fst_objectSet)

lemma map_of_addToCategory:
  "map_of (addToCategory acc e) =
     (map_of acc)(category e \<mapsto> fadd (case map_of acc (category e) of None \<Rightarrow> 0 | Some a \<Rightarrow> a) (amount e))"
  by (simp add: addToCategory_def map_of_objectSet orNumber_0)

text \<open>The object \<open>categoryTotals\<close> after the loop has run over the expenses \<open>L\<close>.\<close>

lemma categoryTotals_keys:
  "map fst (foldl addToCategory [] L) = firstOccurrences (map category L)"
proof (induction L rule: rev_induct)
  case Nil
  show ?case by simp
next
  case (snoc e L)
  have "set (map fst (foldl addToCategory [] L)) = set (map category L)"
    using snoc by (simp only: set_firstOccurrences)
  then have "fst ` set (foldl addToCategory [] L) = category ` set L"
    by simp
  then show ?case
    using snoc by (simp add: keys_addToCategory firstOccurrences_snoc)
qed

lemma categoryTotals_lookup:
  "map_of (foldl addToCategory [] L) c =
     (if c \<in> category ` set L then Some (categoryTotal c L) else None)"
proof (induction L arbitrary: c rule: rev_induct)
  case Nil
  show ?case by simp
next
  case (snoc e L)
  have absent: "category e \<notin> category ` set L \<Longrightarrow> categoryTotal (category e) L = 0"
  proof -
    assume "category e \<notin> category ` set L"
    then have "\<And>x. x \<in> set L \<Longrightarrow> category x \<noteq> category e"
      by (metis imageI)
    then have "filter (\<lambda>x. category x = category e) L = []"
      by (simp add: filter_empty_conv)
    then show ?thesis by (simp add: categoryTotal_def fsum_def)
  qed
  show ?case
    using snoc [of c] snoc [of "category e"] absent
    by (auto simp: map_of_addToCategory categoryTotal_def fsum_def)
qed

lemma pieChartData_names: "map name_c (pieChartData L) = map fst (foldl addToCategory [] L)"
  by (simp add: pieChartData_def comp_def case_prod_unfold)

lemma pieChartData_pairs:
  "map (\<lambda>t. (name_c t, value_c t)) (pieChartData L) = foldl addToCategory [] L"
  by (simp add: pieChartData_def comp_def case_prod_unfold)

text \<open>Splitting a list by the distinct values of a key loses and repeats nothing.\<close>

lemma mset_filter_disjoint:
  assumes "\<And>x. x \<in> set L \<Longrightarrow> \<not> (P x \<and> Q x)"
  shows "mset (filter P L) + mset (filter Q L) = mset (filter (\<lambda>x. P x \<or> Q x) L)"
  using assms by (induction L) auto

lemma mset_split_by_key:
  assumes "distinct cs"
  shows "mset (concat (map (\<lambda>c. filter (\<lambda>e. f e = c) L) cs)) = mset (filter (\<lambda>e. f e \<in> set cs) L)"
  using assms
proof (induction cs)
  case Nil
  show ?case by simp
next
  case (Cons c cs)
  have "mset (filter (\<lambda>e. f e = c) L) + mset (filter (\<lambda>e. f e \<in> set cs) L)
        = mset (filter (\<lambda>e. f e = c \<or> f e \<in> set cs) L)"
    using Cons.prems by (intro mset_filter_disjoint) auto
  then show ?case
    using Cons by simp
qed

lemma fadd_samples:
  "fadd 0 100 = 100" "fadd 0 50 = 50" "fadd 100 50 = 150"
  by code_simp+

lemma float_samples:
  "roundDouble (1 / 10) = 3602879701896397 / 36028797018963968"
  "roundDouble (11 / 10) = 2476979795053773 / 2251799813685248"
  "fadd 0 (3602879701896397 / 36028797018963968) = 3602879701896397 / 36028797018963968"
  "fadd (3602879701896397 / 36028797018963968) (2476979795053773 / 2251799813685248)
     = 1351079888211149 / 1125899906842624"
  "fadd (3602879701896397 / 36028797018963968) (3602879701896397 / 36028797018963968)
     = 3602879701896397 / 18014398509481984"
  "fadd (3602879701896397 / 18014398509481984) (2476979795053773 / 2251799813685248)
     = 5854679515581645 / 4503599627370496"
  "fadd 0 (1351079888211149 / 1125899906842624) = 1351079888211149 / 1125899906842624"
  "fadd (1351079888211149 / 1125899906842624) (3602879701896397 / 36028797018963968)
     = 2927339757790823 / 2251799813685248"
  by code_simp+

text \<open>
  Claim C5, as the code has it. For every expense sequence \<open>L\<close> whose categories are
  category names, the entries of \<open>pieChartData L\<close> are named by the categories of \<open>L\<close> in the
  order of their first occurrence: one entry for each category present in \<open>L\<close>, none for
  any other. The value of each entry is the sum of the amounts of the expenses of \<open>L\<close> in
  its category, added in the order of \<open>L\<close>, and every expense of \<open>L\<close> is counted in exactly
  one entry. (The values are floating-point sums: added up, they need not give the sum of
  all amounts of \<open>L\<close>, which adds the same numbers in another order.)
\<close>

theorem pieChartData_totals:
  assumes "list_all (\<lambda>e. category e \<in> set CATEGORIES) L"
  shows "map name_c (pieChartData L) = firstOccurrences (map category L)
   \<and> distinct (map name_c (pieChartData L))
   \<and> set (map name_c (pieChartData L)) = category ` set L
   \<and> (\<forall>t \<in> set (pieChartData L). value_c t = categoryTotal (name_c t) L)
   \<and> mset (concat (map (\<lambda>t. filter (\<lambda>e. category e = name_c t) L) (pieChartData L))) = mset L"
proof -
  have n: "map name_c (pieChartData L) = firstOccurrences (map category L)"
    by (simp add: pieChartData_names categoryTotals_keys)
  have v: "\<forall>t \<in> set (pieChartData L). value_c t = categoryTotal (name_c t) L"
  proof
    fix t assume t: "t \<in> set (pieChartData L)"
    then have "(name_c t, value_c t) \<in> set (foldl addToCategory [] L)"
      using pieChartData_pairs [of L] by (metis (no_types, lifting) image_eqI set_map)
    moreover have "distinct (map fst (foldl addToCategory [] L))"
      by (simp add: categoryTotals_keys distinct_firstOccurrences)
    ultimately have "map_of (foldl addToCategory [] L) (name_c t) = Some (value_c t)"
      by simp
    then show "value_c t = categoryTotal (name_c t) L"
      by (simp add: categoryTotals_lookup split: if_splits)
  qed
  have d: "distinct (map name_c (pieChartData L))"
    by (simp only: n distinct_firstOccurrences)
  have s: "set (map name_c (pieChartData L)) = category ` set L"
    by (simp only: n set_firstOccurrences set_map)
  have "concat (map (\<lambda>t. filter (\<lambda>e. category e = name_c t) L) (pieChartData L))
        = concat (map (\<lambda>c. filter (\<lambda>e. category e = c) L) (map name_c (pieChartData L)))"
    by (simp add: comp_def)
  then have "mset (concat (map (\<lambda>t. filter (\<lambda>e. category e = name_c t) L) (pieChartData L)))
        = mset (filter (\<lambda>e. category e \<in> set (map name_c (pieChartData L))) L)"
    using mset_split_by_key [OF d, of category L] by simp
  also have "\<dots> = mset L"
    unfolding s by simp
  finally have c: "mset (concat (map (\<lambda>t. filter (\<lambda>e. category e = name_c t) L) (pieChartData L))) = mset L" .
  show ?thesis
    using n v d s c by (intro conjI)
qed

lemma pieChartData_float:
  "pieChartData floatExpenses =
     [\<lparr> name_c = ''Food'', value_c = 1351079888211149 / 1125899906842624 \<rparr>,
      \<lparr> name_c = ''Transport'', value_c = 3602879701896397 / 36028797018963968 \<rparr>]"
  by (simp add: pieChartData_def floatExpenses_def addToCategory_def orNumber_def float_samples)

text \<open>
  The claim as stated fails for the amounts 0.1 (Food), 0.1 (Transport) and 1.1 (Food):
  the totals are 1.2000000000000002 and 0.1 and add up to 1.3000000000000003, while the
  amounts add up to 1.3.
\<close>

theorem pieChartData_sum_differs:
  "list_all (\<lambda>e. category e \<in> set CATEGORIES) floatExpenses
   \<and> fsum (map value_c (pieChartData floatExpenses)) = 2927339757790823 / 2251799813685248
   \<and> fsum (map amount floatExpenses) = 5854679515581645 / 4503599627370496
   \<and> fsum (map value_c (pieChartData floatExpenses)) \<noteq> fsum (map amount floatExpenses)"
proof -
  have a: "fsum (map value_c (pieChartData floatExpenses)) = 2927339757790823 / 2251799813685248"
    by (simp add: pieChartData_float fsum_def float_samples)
  have b: "fsum (map amount floatExpenses) = 5854679515581645 / 4503599627370496"
    by (simp add: floatExpenses_def fsum_def float_samples)
  have c: "list_all (\<lambda>e. category e \<in> set CATEGORIES) floatExpenses"
    by (simp add: floatExpenses_def CATEGORIES_def)
  show ?thesis
    unfolding a b using c by simp
qed

theorem pieChartData_totals_witness:
  "list_all (\<lambda>e. category e \<in> set CATEGORIES) scenarioExpenses
   \<and> map name_c (pieChartData scenarioExpenses) = [''Food'', ''Transport'']
   \<and> pieChartData scenarioExpenses =
        [\<lparr> name_c = ''Food'', value_c = 100 \<rparr>, \<lparr> name_c = ''Transport'', value_c = 50 \<rparr>]
   \<and> categoryTotal ''Food'' scenarioExpenses = 100
   \<and> categoryTotal ''Transport'' scenarioExpenses = 50"
proof -
  have h: "list_all (\<lambda>e. category e \<in> set CATEGORIES) scenarioExpenses"
    by (simp add: scenarioExpenses_def CATEGORIES_def)
  have p: "pieChartData scenarioExpenses =
        [\<lparr> name_c = ''Food'', value_c = 100 \<rparr>, \<lparr> name_c = ''Transport'', value_c = 50 \<rparr>]"
    by (simp add: pieChartData_def scenarioExpenses_def addToCategory_def orNumber_def fadd_samples)
  show ?thesis
    using pieChartData_totals [OF h] h p
    by (simp add: scenarioExpenses_def)
qed

section \<open>The calendar\<close>

lemma div_bounds:
  fixes x :: int
  shows "4 * (x div 4) \<le> x" "x \<le> 4 * (x div 4) + 3"
        "100 * (x div 100) \<le> x" "x \<le> 100 * (x div 100) + 99"
        "400 * (x div 400) \<le> x" "x \<le> 400 * (x div 400) + 399"
  by (simp_all add: algebra_simps)

lemma linear_estimate:
  fixes y a b c :: int
  assumes "4 * a \<le> y - 1969" "y - 1969 \<le> 4 * a + 3"
       "100 * b \<le> y - 1901" "y - 1901 \<le> 100 * b + 99"
       "400 * c \<le> y - 1601" "y - 1601 \<le> 400 * c + 399"
  shows "146097 * (y - 1970) - 506 \<le> 400 * (365 * (y - 1970) + a - b + c)"
    and "400 * (365 * (y - 1970) + a - b + c) \<le> 146097 * (y - 1970) + 589"
  using assms by simp_all

text \<open>The first day of year \<open>y\<close> lies within two days of \<open>365.2425 * (y - 1970)\<close>.\<close>

lemma DayFromYear_estimate:
  "146097 * (y - 1970) - 506 \<le> 400 * DayFromYear y"
  "400 * DayFromYear y \<le> 146097 * (y - 1970) + 589"
  unfolding DayFromYear_def
  by (rule linear_estimate; rule div_bounds)+

lemma div_succ:
  fixes x n :: int
  assumes "0 < n"
  shows "(x + 1) div n = x div n + (if (x + 1) mod n = 0 then 1 else 0)"
proof -
  define q where "q = (x + 1) div n"
  define r where "r = (x + 1) mod n"
  have x: "x + 1 = n * q + r" and r: "0 \<le> r" "r < n"
    using assms by (simp_all add: q_def r_def)
  show ?thesis
  proof (cases "r = 0")
    case True
    have "x = n * (q - 1) + (n - 1)"
      using x True by (simp add: algebra_simps)
    then have "x div n = q - 1"
      using assms by (intro int_div_pos_eq [where r = "n - 1"]) simp_all
    then show ?thesis
      using True by (simp add: q_def [symmetric] r_def [symmetric])
  next
    case False
    have "x = n * q + (r - 1)"
      using x by simp
    then have "x div n = q"
      using r False by (intro int_div_pos_eq [where r = "r - 1"]) simp_all
    then show ?thesis
      using False by (simp add: q_def [symmetric] r_def [symmetric])
  qed
qed

lemma leap_residues:
  fixes y :: int
  shows "(y - 1968) mod 4 = y mod 4" "(y - 1900) mod 100 = y mod 100" "(y - 1600) mod 400 = y mod 400"
  using mod_mult_self1 [of y "-492" 4] mod_mult_self1 [of y "-19" 100] mod_mult_self1 [of y "-4" 400]
  by simp_all

lemma leap_divisors:
  fixes y :: int
  shows "y mod 400 = 0 \<Longrightarrow> y mod 100 = 0" "y mod 100 = 0 \<Longrightarrow> y mod 4 = 0"
  by auto

text \<open>A year has 365 or 366 days.\<close>

lemma DaysInYear_sum:
  "DaysInYear y = 365 + (if y mod 4 = 0 then 1 else 0) - (if y mod 100 = 0 then 1 else 0)
       + (if y mod 400 = 0 then 1 else 0)"
proof (cases "y mod 100 = 0")
  case True
  then have "y mod 4 = 0" by (rule leap_divisors)
  then show ?thesis using True by (simp add: DaysInYear_def isLeapYear_def)
next
  case False
  then have "y mod 400 \<noteq> 0" using leap_divisors(1) [of y] by metis
  then show ?thesis using False by (simp add: DaysInYear_def isLeapYear_def)
qed

lemma DayFromYear_step: "DayFromYear (y + 1) = DayFromYear y + DaysInYear y"
proof -
  have a: "(y - 1968) div 4 = (y - 1969) div 4 + (if y mod 4 = 0 then 1 else 0)"
    using div_succ [of 4 "y - 1969"] by (simp add: leap_residues)
  have b: "(y - 1900) div 100 = (y - 1901) div 100 + (if y mod 100 = 0 then 1 else 0)"
    using div_succ [of 100 "y - 1901"] by (simp add: leap_residues)
  have c: "(y - 1600) div 400 = (y - 1601) div 400 + (if y mod 400 = 0 then 1 else 0)"
    using div_succ [of 400 "y - 1601"] by (simp add: leap_residues)
  have "DayFromYear (y + 1) = 365 * (y - 1969) + (y - 1968) div 4 - (y - 1900) div 100 + (y - 1600) div 400"
    by (simp add: DayFromYear_def)
  also have "\<dots> = DayFromYear y + DaysInYear y"
    unfolding a b c DaysInYear_sum DayFromYear_def by (simp only: algebra_simps)
  finally show ?thesis .
qed

lemma DaysInYear_cases: "DaysInYear y = 365 \<or> DaysInYear y = 366"
  by (simp add: DaysInYear_def)

text \<open>\<open>YearFromDay\<close> meets the specification of \<open>YearFromTime\<close>: the year that holds day \<open>n\<close>.\<close>

lemma YearFromDay_bounds:
  "DayFromYear (YearFromDay n) \<le> n \<and> n < DayFromYear (YearFromDay n + 1)"
proof -
  define c where "c = (400 * n) div 146097"
  have c: "146097 * c \<le> 400 * n" "400 * n < 146097 * c + 146097"
    unfolding c_def by (simp_all add: algebra_simps) 
  have up: "n < DayFromYear (1970 + c + 2)"
    using DayFromYear_estimate(1) [of "1970 + c + 2"] c by simp
  have low: "DayFromYear (1970 + c - 1) \<le> n"
    using DayFromYear_estimate(2) [of "1970 + c - 1"] c by simp
  show ?thesis
    unfolding YearFromDay_def c_def [symmetric] Let_def
    using up low by (auto simp: algebra_simps)
qed

lemma DayFromYear_less:
  assumes "y < y'"
  shows "DayFromYear y + DaysInYear y \<le> DayFromYear y'"
proof (cases "y' = y + 1")
  case True
  then show ?thesis by (simp add: DayFromYear_step)
next
  case False
  then have "y + 2 \<le> y'" using assms by simp
  then show ?thesis
    using DayFromYear_estimate(1) [of y'] DayFromYear_estimate(2) [of y] DaysInYear_cases [of y]
    by auto
qed

lemma DayFromYear_mono: "y \<le> y' \<Longrightarrow> DayFromYear y \<le> DayFromYear y'"
  using DayFromYear_less [of y y'] DaysInYear_cases [of y] by (cases "y = y'") auto

text \<open>The year that holds day \<open>n\<close> is unique.\<close>

lemma YearFromDay_unique:
  assumes "DayFromYear y \<le> n" "n < DayFromYear (y + 1)"
  shows "YearFromDay n = y"
proof (rule ccontr)
  assume ne: "YearFromDay n \<noteq> y"
  note b = YearFromDay_bounds [of n]
  show False
  proof (cases "YearFromDay n < y")
    case True
    then have "DayFromYear (YearFromDay n + 1) \<le> DayFromYear y"
      by (intro DayFromYear_mono) simp
    then show False using b assms by simp
  next
    case False
    then have "DayFromYear (y + 1) \<le> DayFromYear (YearFromDay n)"
      using ne by (intro DayFromYear_mono) simp
    then show False using b assms by simp
  qed
qed

lemma Day_of_day [simp]: "Day (n * msPerDay) = n"
  by (simp add: Day_def msPerDay_def)

lemma DayWithinYear_range:
  "0 \<le> DayWithinYear t \<and> DayWithinYear t < 365 + InLeapYear t"
  using YearFromDay_bounds [of "Day t"] DayFromYear_step [of "YearFromDay (Day t)"]
  by (simp add: DayWithinYear_def YearFromTime_def InLeapYear_def DaysInYear_def split: if_splits)

lemma monthOfDay_range: "0 \<le> monthOfDay l d \<and> monthOfDay l d \<le> 11"
  by (simp add: monthOfDay_def)

lemma MonthFromTime_range: "0 \<le> MonthFromTime t \<and> MonthFromTime t \<le> 11"
  by (simp add: MonthFromTime_def monthOfDay_range)

lemma monthOfDay_start:
  assumes "0 \<le> d" "d < 365 + l" "l = 0 \<or> l = 1"
  shows "monthStart l (monthOfDay l d) \<le> d \<and> d - monthStart l (monthOfDay l d) < 31"
  using assms by (auto simp: monthOfDay_def monthStart_def)

lemma DateFromTime_range: "1 \<le> DateFromTime t \<and> DateFromTime t \<le> 31"
proof -
  have "InLeapYear t = 0 \<or> InLeapYear t = 1"
    by (simp add: InLeapYear_def)
  then show ?thesis
    using monthOfDay_start [of "DayWithinYear t" "InLeapYear t"] DayWithinYear_range [of t]
    by (simp add: DateFromTime_def MonthFromTime_def)
qed

text \<open>The fields of a time value determine its day.\<close>

lemma MakeDay_fields: "MakeDay (YearFromTime t) (MonthFromTime t) dt = Day t + dt - DateFromTime t"
proof -
  have m: "MonthFromTime t div 12 = 0" "MonthFromTime t mod 12 = MonthFromTime t"
    using MonthFromTime_range [of t] by simp_all
  show ?thesis
    by (simp add: MakeDay_def m DateFromTime_def DayWithinYear_def InLeapYear_def)
qed

text \<open>In a zone with a fixed offset, \<open>setDate\<close> moves a time value by whole days.\<close>

lemma setDate_shift:
  "setDate (fixedZone k) t dt = t + (dt - getDate (fixedZone k) t) * msPerDay"
proof -
  have "(t + k) div msPerDay * msPerDay + (t + k) mod msPerDay = t + k"
    by simp
  then show ?thesis
    by (simp add: setDate_def LocalTime_def UTC_def fixedZone_def MakeDate_def MakeDay_fields getDate_def
        Day_def TimeWithinDay_def algebra_simps Let_def)
qed

section \<open>Printing dates\<close>

lemma digitChar_code: "of_char (digitChar x) = 48 + nat (x mod 10)"
proof -
  have "nat (x mod 10) < 10" by simp
  then have "(48 + nat (x mod 10)) mod 256 = 48 + nat (x mod 10)" by simp
  then show ?thesis by (simp add: digitChar_def)
qed

lemma digitChar_eq: "digitChar x = digitChar y \<Longrightarrow> x mod 10 = y mod 10"
proof -
  assume "digitChar x = digitChar y"
  then have "(of_char (digitChar x) :: nat) = of_char (digitChar y)" by simp
  then have "nat (x mod 10) = nat (y mod 10)" by (simp add: digitChar_code)
  then show ?thesis by simp
qed

lemma digitChar_not_letter: "digitChar x \<noteq> CHR ''T''"
proof
  assume "digitChar x = CHR ''T''"
  then have "(of_char (digitChar x) :: nat) = of_char (CHR ''T'')" by simp
  then show False by (simp add: digitChar_code)
qed

lemma digitChar_isDigit: "isDigit (digitChar x)"
  by (simp add: isDigit_def less_eq_char_def digitChar_code)

lemma digitVal_digitChar: "digitVal (digitChar x) = x mod 10"
  by (simp add: digitVal_def digitChar_code)

lemma div_div_10:
  fixes a :: int
  shows "a div 10 div 10 = a div 100" "a div 100 div 10 = a div 1000"
        "a div 1000 div 10 = a div 10000" "a div 10000 div 10 = a div 100000"
  by force+

lemma digit_steps:
  fixes a :: int
  shows "a = 10 * (a div 10) + a mod 10"
        "a div 10 = 10 * (a div 100) + a div 10 mod 10"
        "a div 100 = 10 * (a div 1000) + a div 100 mod 10"
        "a div 1000 = 10 * (a div 10000) + a div 1000 mod 10"
        "a div 10000 = 10 * (a div 100000) + a div 10000 mod 10"
  unfolding div_div_10 [symmetric] by simp_all

lemma horner4:
  fixes a b c e r0 r1 r2 :: int
  assumes "a = 10 * b + r0" "b = 10 * c + r1" "c = 10 * e + r2"
  shows "1000 * e + 100 * r2 + 10 * r1 + r0 = a"
  using assms by simp

lemma horner6:
  fixes a b c e f g r0 r1 r2 r3 r4 :: int
  assumes "a = 10 * b + r0" "b = 10 * c + r1" "c = 10 * e + r2" "e = 10 * f + r3" "f = 10 * g + r4"
  shows "100000 * g + 10000 * r4 + 1000 * r3 + 100 * r2 + 10 * r1 + r0 = a"
  using assms by simp

lemma small_mod: fixes x :: int shows "0 \<le> x \<Longrightarrow> x < 10 \<Longrightarrow> x mod 10 = x"
  by simp

lemma d2: fixes a :: int assumes "0 \<le> a" "a < 100" shows "10 * (a div 10 mod 10) + a mod 10 = a"
  using assms by force

lemma d4: fixes a :: int assumes "0 \<le> a" "a < 10000"
  shows "1000 * (a div 1000 mod 10) + 100 * (a div 100 mod 10) + 10 * (a div 10 mod 10) + a mod 10 = a"
proof -
  have e: "a div 1000 mod 10 = a div 1000"
    using assms by (intro small_mod) (simp_all add: div_less_iff_less_mult pos_imp_zdiv_nonneg_iff)
  show ?thesis
    unfolding e by (rule horner4 [OF digit_steps(1) digit_steps(2) digit_steps(3)])
qed

lemma d6: fixes a :: int assumes "0 \<le> a" "a < 1000000"
  shows "100000 * (a div 100000 mod 10) + 10000 * (a div 10000 mod 10) + 1000 * (a div 1000 mod 10)
         + 100 * (a div 100 mod 10) + 10 * (a div 10 mod 10) + a mod 10 = a"
proof -
  have e: "a div 100000 mod 10 = a div 100000"
    using assms by (intro small_mod) (simp_all add: div_less_iff_less_mult pos_imp_zdiv_nonneg_iff)
  show ?thesis
    unfolding e
    by (rule horner6 [OF digit_steps(1) digit_steps(2) digit_steps(3) digit_steps(4) digit_steps(5)])
qed

lemma pad2_inj:
  assumes "0 \<le> a" "a < 100" "0 \<le> b" "b < 100" "pad2 a = pad2 b"
  shows "a = b"
proof -
  have c: "digitChar (a div 10) = digitChar (b div 10)" "digitChar a = digitChar b"
    using assms(5) by (simp_all add: pad2_def)
  note e = c [THEN digitChar_eq]
  have "a = 10 * (a div 10 mod 10) + a mod 10"
    using assms(1,2) by (rule d2 [symmetric])
  also have "\<dots> = 10 * (b div 10 mod 10) + b mod 10"
    by (simp only: e)
  also have "\<dots> = b"
    using assms(3,4) by (rule d2)
  finally show ?thesis .
qed

lemma pad4_inj:
  assumes "0 \<le> a" "a < 10000" "0 \<le> b" "b < 10000" "pad4 a = pad4 b"
  shows "a = b"
proof -
  have c: "digitChar (a div 1000) = digitChar (b div 1000)" "digitChar (a div 100) = digitChar (b div 100)"
    "digitChar (a div 10) = digitChar (b div 10)" "digitChar a = digitChar b"
    using assms(5) by (simp_all add: pad4_def)
  note e = c [THEN digitChar_eq]
  have "a = 1000 * (a div 1000 mod 10) + 100 * (a div 100 mod 10) + 10 * (a div 10 mod 10) + a mod 10"
    using assms(1,2) by (rule d4 [symmetric])
  also have "\<dots> = 1000 * (b div 1000 mod 10) + 100 * (b div 100 mod 10) + 10 * (b div 10 mod 10) + b mod 10"
    by (simp only: e)
  also have "\<dots> = b"
    using assms(3,4) by (rule d4)
  finally show ?thesis .
qed

lemma pad6_inj:
  assumes "0 \<le> a" "a < 1000000" "0 \<le> b" "b < 1000000" "pad6 a = pad6 b"
  shows "a = b"
proof -
  have c: "digitChar (a div 100000) = digitChar (b div 100000)"
    "digitChar (a div 10000) = digitChar (b div 10000)"
    "digitChar (a div 1000) = digitChar (b div 1000)" "digitChar (a div 100) = digitChar (b div 100)"
    "digitChar (a div 10) = digitChar (b div 10)" "digitChar a = digitChar b"
    using assms(5) by (simp_all add: pad6_def)
  note e = c [THEN digitChar_eq]
  have "a = 100000 * (a div 100000 mod 10) + 10000 * (a div 10000 mod 10) + 1000 * (a div 1000 mod 10)
         + 100 * (a div 100 mod 10) + 10 * (a div 10 mod 10) + a mod 10"
    using assms(1,2) by (rule d6 [symmetric])
  also have "\<dots> = 100000 * (b div 100000 mod 10) + 10000 * (b div 10000 mod 10) + 1000 * (b div 1000 mod 10)
         + 100 * (b div 100 mod 10) + 10 * (b div 10 mod 10) + b mod 10"
    by (simp only: e)
  also have "\<dots> = b"
    using assms(3,4) by (rule d6)
  finally show ?thesis .
qed

lemma isoYear_inj:
  assumes "\<bar>a\<bar> < 1000000" "\<bar>b\<bar> < 1000000" "isoYear a = isoYear b"
  shows "a = b"
proof (cases "0 \<le> a \<and> a \<le> 9999")
  case True
  then have "length (isoYear a) = 4" by (simp add: isoYear_def pad4_def)
  then have "0 \<le> b \<and> b \<le> 9999"
    using assms(3) by (auto simp: isoYear_def pad6_def split: if_splits)
  then show ?thesis
    using True assms(3) by (intro pad4_inj) (simp_all add: isoYear_def)
next
  case False
  then have "length (isoYear a) = 7" by (auto simp: isoYear_def pad6_def)
  then have nb: "\<not> (0 \<le> b \<and> b \<le> 9999)"
    using assms(3) by (auto simp: isoYear_def pad4_def split: if_splits)
  have s: "(a < 0) = (b < 0)" and p: "pad6 \<bar>a\<bar> = pad6 \<bar>b\<bar>"
    using False nb assms(3) by (auto simp: isoYear_def split: if_splits)
  have "\<bar>a\<bar> = \<bar>b\<bar>"
    using assms(1,2) p by (intro pad6_inj) simp_all
  then show ?thesis using s by linarith
qed

lemma Day_fields:
  "Day t = DayFromYear (YearFromTime t) + monthStart (InLeapYear t) (MonthFromTime t) + DateFromTime t - 1"
  by (simp add: DateFromTime_def DayWithinYear_def)

lemma InLeapYear_year: "YearFromTime s = YearFromTime t \<Longrightarrow> InLeapYear s = InLeapYear t"
  by (simp add: InLeapYear_def)

lemma fields_determine_day:
  assumes "YearFromTime s = YearFromTime t" "MonthFromTime s = MonthFromTime t" "DateFromTime s = DateFromTime t"
  shows "Day s = Day t"
  using Day_fields [of s] Day_fields [of t] InLeapYear_year [OF assms(1)] assms by simp

lemma year_of_day_range:
  assumes "\<bar>n\<bar> \<le> 100000006"
  shows "\<bar>YearFromDay n\<bar> < 1000000"
proof -
  define Y where "Y = YearFromDay n"
  define d0 where "d0 = DayFromYear Y"
  define d1 where "d1 = DayFromYear (Y + 1)"
  have "d0 \<le> n" "n < d1"
    using YearFromDay_bounds [of n] by (simp_all add: Y_def d0_def d1_def)
  moreover have "146097 * (Y - 1970) - 506 \<le> 400 * d0"
    unfolding d0_def by (rule DayFromYear_estimate)
  moreover have "400 * d1 \<le> 146097 * (Y + 1 - 1970) + 589"
    unfolding d1_def by (rule DayFromYear_estimate)
  ultimately have "\<bar>Y\<bar> < 1000000"
    using assms by simp
  then show ?thesis by (simp add: Y_def)
qed

lemma isoDateOfDay_no_T: "CHR ''T'' \<notin> set (isoDateOfDay n)"
  by (simp add: isoDateOfDay_def isoYear_def pad2_def pad4_def pad6_def digitChar_not_letter [THEN not_sym] Let_def)

lemma splitT0_toISOString: "splitT0 (toISOString t) = isoDateOfDay (Day t)"
proof -
  have "takeWhile (\<lambda>c. c \<noteq> CHR ''T'') (isoDateOfDay (Day t) @ CHR ''T'' # r) = isoDateOfDay (Day t)" for r
  proof -
    have "\<And>c. c \<in> set (isoDateOfDay (Day t)) \<Longrightarrow> c \<noteq> CHR ''T''"
      using isoDateOfDay_no_T [of "Day t"] by blast
    then have "takeWhile (\<lambda>c. c \<noteq> CHR ''T'') (isoDateOfDay (Day t) @ CHR ''T'' # r)
        = isoDateOfDay (Day t) @ takeWhile (\<lambda>c. c \<noteq> CHR ''T'') (CHR ''T'' # r)"
      by (rule takeWhile_append2)
    then show ?thesis by simp
  qed
  then show ?thesis
    by (simp add: splitT0_def toISOString_def)
qed

lemma getFormattedDate_day: "getFormattedDate t = isoDateOfDay (Day t)"
  by (simp add: getFormattedDate_def splitT0_toISOString)

lemma length_isoYear: "length (isoYear y) = (if 0 \<le> y \<and> y \<le> 9999 then 4 else 7)"
  by (simp add: isoYear_def pad4_def pad6_def)

lemma isoDateOfDay_parts:
  assumes "isoDateOfDay a = isoDateOfDay b"
  shows "isoYear (YearFromDay a) = isoYear (YearFromDay b)
       \<and> pad2 (MonthFromTime (a * msPerDay) + 1) = pad2 (MonthFromTime (b * msPerDay) + 1)
       \<and> pad2 (DateFromTime (a * msPerDay)) = pad2 (DateFromTime (b * msPerDay))"
proof -
  let ?ya = "isoYear (YearFromDay a)" and ?yb = "isoYear (YearFromDay b)"
  let ?ra = "CHR ''-'' # pad2 (MonthFromTime (a * msPerDay) + 1) @ CHR ''-'' # pad2 (DateFromTime (a * msPerDay))"
  let ?rb = "CHR ''-'' # pad2 (MonthFromTime (b * msPerDay) + 1) @ CHR ''-'' # pad2 (DateFromTime (b * msPerDay))"
  have e: "?ya @ ?ra = ?yb @ ?rb"
    using assms by (simp add: isoDateOfDay_def YearFromTime_def Let_def)
  have l: "length ?ra = length ?rb"
    by (simp add: pad2_def)
  have "length (?ya @ ?ra) = length (?yb @ ?rb)"
    using e by simp
  then have "length ?ya = length ?yb"
    using l by simp
  then have "?ya = ?yb \<and> ?ra = ?rb"
    using e by (metis append_eq_append_conv)
  then show ?thesis
    by (simp add: pad2_def)
qed

text \<open>Within the range of Date, different days print as different strings.\<close>

lemma isoDateOfDay_inj:
  assumes "\<bar>a\<bar> \<le> 100000006" "\<bar>b\<bar> \<le> 100000006" "isoDateOfDay a = isoDateOfDay b"
  shows "a = b"
proof -
  let ?s = "a * msPerDay" and ?t = "b * msPerDay"
  note p = isoDateOfDay_parts [OF assms(3)]
  have y: "YearFromTime ?s = YearFromTime ?t"
    using p year_of_day_range [OF assms(1)] year_of_day_range [OF assms(2)]
    by (simp add: YearFromTime_def isoYear_inj)
  have "MonthFromTime ?s + 1 = MonthFromTime ?t + 1"
    using p MonthFromTime_range [of ?s] MonthFromTime_range [of ?t]
    by (intro pad2_inj) simp_all
  then have m: "MonthFromTime ?s = MonthFromTime ?t" by simp
  have d: "DateFromTime ?s = DateFromTime ?t"
    using p DateFromTime_range [of ?s] DateFromTime_range [of ?t]
    by (intro pad2_inj) simp_all
  show ?thesis
    using fields_determine_day [OF y m d] by simp
qed

section \<open>Weekly trend\<close>

lemma Day_shift: "Day (t + k * msPerDay) = Day t + k"
  by (simp add: Day_def msPerDay_def)

text \<open>In a zone with a fixed offset the date keys are the UTC day of the clock and the days before it.\<close>

lemma newBucket_date: "date_b (newBucket (fixedZone k) today i) = isoDateOfDay (Day today - i)"
proof -
  have "setDate (fixedZone k) today (getDate (fixedZone k) today - i) = today + (- i) * msPerDay"
    by (simp add: setDate_shift)
  then show ?thesis
    using Day_shift [of today "- i"] by (simp add: newBucket_def splitT0_toISOString Let_def)
qed

lemma newBucket_amount: "amount_b (newBucket z today i) = 0"
  by (simp add: newBucket_def Let_def)

lemma Day_clockReading: "clockReading t \<Longrightarrow> 0 \<le> Day t \<and> Day t \<le> 100000000"
proof -
  assume c: "clockReading t"
  then have "t div 86400000 \<le> 8640000000000000 div 86400000"
    by (intro zdiv_mono1) (simp_all add: clockReading_def)
  moreover have "0 \<le> t div 86400000"
    using c by (simp add: clockReading_def pos_imp_zdiv_nonneg_iff)
  ultimately show ?thesis
    by (simp add: Day_def msPerDay_def)
qed

text \<open>The loop over the expenses: each bucket collects the amounts of its own date.\<close>

lemma addToDay_map:
  "distinct (map date_b ds) \<Longrightarrow>
   addToDay e ds = map (\<lambda>d. if date_b d = date e then d\<lparr> amount_b := fadd (amount_b d) (amount e) \<rparr> else d) ds"
proof (induction ds)
  case Nil
  show ?case by simp
next
  case (Cons d ds)
  show ?case
  proof (cases "date_b d = date e")
    case True
    have "date e \<notin> date_b ` set ds"
      using Cons.prems True by simp
    then have "\<And>x. x \<in> set ds \<Longrightarrow> date_b x \<noteq> date e"
      by (metis imageI)
    then have "map (\<lambda>d. if date_b d = date e then d\<lparr> amount_b := fadd (amount_b d) (amount e) \<rparr> else d) ds = ds"
      by (induction ds) auto
    then show ?thesis using True by simp
  next
    case False
    then show ?thesis using Cons by simp
  qed
qed

lemma addToDay_dates: "map date_b (addToDay e ds) = map date_b ds"
  by (induction ds) auto

lemma addToDay_length: "length (addToDay e ds) = length ds"
  by (induction ds) auto

lemma buckets_after_loop:
  "distinct (map date_b ds) \<Longrightarrow>
   foldl (\<lambda>days e. addToDay e days) ds es =
     map (\<lambda>d. d\<lparr> amount_b := foldl fadd (amount_b d) (map amount (filter (\<lambda>e. date e = date_b d) es)) \<rparr>) ds"
proof (induction es arbitrary: ds)
  case Nil
  show ?case by simp
next
  case (Cons e es)
  have d: "distinct (map date_b (addToDay e ds))"
    using Cons.prems by (simp only: addToDay_dates)
  have "foldl (\<lambda>days e. addToDay e days) ds (e # es)
        = map (\<lambda>d. d\<lparr> amount_b := foldl fadd (amount_b d) (map amount (filter (\<lambda>e. date e = date_b d) es)) \<rparr>)
            (addToDay e ds)"
    using Cons.IH [OF d] by simp
  also have "\<dots> = map (\<lambda>d. d\<lparr> amount_b := foldl fadd (amount_b d)
                                   (map amount (filter (\<lambda>e. date e = date_b d) (e # es))) \<rparr>) ds"
    unfolding addToDay_map [OF Cons.prems] by simp
  finally show ?case .
qed

text \<open>The loop changes neither the number of the buckets nor their dates.\<close>

lemma loop_dates: "map date_b (foldl (\<lambda>days e. addToDay e days) ds es) = map date_b ds"
  by (induction es arbitrary: ds) (simp_all add: addToDay_dates)

text \<open>The seven buckets before the loop, oldest first.\<close>

lemma last7Days_dates:
  "map date_b (rev (map (newBucket (fixedZone k) today) [0, 1, 2, 3, 4, 5, 6])) =
     map (\<lambda>i. isoDateOfDay (Day today - i)) [6, 5, 4, 3, 2, 1, 0]"
  by (simp add: newBucket_date)

lemma distinct_week:
  assumes "clockReading today"
  shows "distinct (map (\<lambda>i. isoDateOfDay (Day today - i)) [6, 5, 4, 3, 2, 1, 0])"
proof -
  have inj: "inj_on (\<lambda>i. isoDateOfDay (Day today - i)) (set [6, 5, 4, 3, 2, 1, 0])"
  proof (rule inj_onI)
    fix i j :: int
    assume i: "i \<in> set [6, 5, 4, 3, 2, 1, 0]" and j: "j \<in> set [6, 5, 4, 3, 2, 1, 0]"
      and e: "isoDateOfDay (Day today - i) = isoDateOfDay (Day today - j)"
    have r: "0 \<le> i \<and> i \<le> 6" "0 \<le> j \<and> j \<le> 6"
      using i j by auto
    note c = Day_clockReading [OF assms]
    have "\<bar>Day today - i\<bar> \<le> 100000006"
      using r(1) c by linarith
    moreover have "\<bar>Day today - j\<bar> \<le> 100000006"
      using r(2) c by linarith
    ultimately have "Day today - i = Day today - j"
      using e by (rule isoDateOfDay_inj)
    then show "i = j" by simp
  qed
  have "distinct [6, 5, 4, 3, 2, 1, 0 :: int]"
    by simp
  then show ?thesis
    using inj by (simp only: distinct_map simp_thms)
qed

text \<open>
  What \<open>weeklyTrendData\<close> computes where the offset of the zone is fixed: for every such
  zone, every reading of the clock and every expense list, exactly seven buckets, whose
  date keys are the UTC date of the clock reading and the six UTC dates before it, oldest
  first and all different; the amount of each bucket is the sum of the amounts of the
  expenses whose date equals its key, added in the order of the list, and 0 where there
  is none.
\<close>

theorem weeklyTrendData_fixedZone:
  assumes "clockReading today"
  shows "length (weeklyTrendData (fixedZone k) today expenses) = 7
       \<and> map date_b (weeklyTrendData (fixedZone k) today expenses) =
           map (\<lambda>i. isoDateOfDay (Day today - i)) [6, 5, 4, 3, 2, 1, 0]
       \<and> distinct (map date_b (weeklyTrendData (fixedZone k) today expenses))
       \<and> (\<forall>b \<in> set (weeklyTrendData (fixedZone k) today expenses). amount_b b = dayTotal (date_b b) expenses)
       \<and> (\<forall>b \<in> set (weeklyTrendData (fixedZone k) today []). amount_b b = 0)"
proof -
  let ?ds = "rev (map (newBucket (fixedZone k) today) [0, 1, 2, 3, 4, 5, 6])"
  have dist: "distinct (map date_b ?ds)"
    unfolding last7Days_dates using assms by (rule distinct_week)
  have w: "weeklyTrendData (fixedZone k) today es =
             map (\<lambda>d. d\<lparr> amount_b := foldl fadd (amount_b d) (map amount (filter (\<lambda>e. date e = date_b d) es)) \<rparr>) ?ds" for es
    unfolding weeklyTrendData_def Let_def by (rule buckets_after_loop [OF dist])
  have zero: "\<And>d. d \<in> set ?ds \<Longrightarrow> amount_b d = 0"
    by (auto simp: newBucket_amount)
  have dates: "map date_b (weeklyTrendData (fixedZone k) today es) = map date_b ?ds" for es
    unfolding w by (simp add: comp_def)
  have len: "length (weeklyTrendData (fixedZone k) today expenses) = 7"
    unfolding w by simp
  have amounts: "\<forall>b \<in> set (weeklyTrendData (fixedZone k) today es). amount_b b = dayTotal (date_b b) es" for es
    unfolding w using zero by (auto simp: dayTotal_def fsum_def)
  have empty: "\<forall>b \<in> set (weeklyTrendData (fixedZone k) today []). amount_b b = 0"
    using amounts [of "[]"] by (simp add: dayTotal_def fsum_def)
  show ?thesis
    using len dates [of expenses] dist amounts [of expenses] empty
    by (simp only: last7Days_dates simp_thms)
qed

lemma Day_sample: "Day 1710484200000 = 19797"
  by (simp add: Day_def msPerDay_def)

lemma week_days_sample:
  "isoDateOfDay 19791 = ''2024-03-09''" "isoDateOfDay 19792 = ''2024-03-10''"
  "isoDateOfDay 19793 = ''2024-03-11''" "isoDateOfDay 19794 = ''2024-03-12''"
  "isoDateOfDay 19795 = ''2024-03-13''" "isoDateOfDay 19796 = ''2024-03-14''"
  "isoDateOfDay 19797 = ''2024-03-15''"
  by code_simp+

lemma week_sample:
  "map (\<lambda>i. isoDateOfDay (19797 - i)) [6, 5, 4, 3, 2, 1, 0] =
     [''2024-03-09'', ''2024-03-10'', ''2024-03-11'', ''2024-03-12'', ''2024-03-13'', ''2024-03-14'',
      ''2024-03-15'']"
  by (simp add: week_days_sample)

theorem weeklyTrendData_fixedZone_witness:
  "clockReading 1710484200000
   \<and> length (weeklyTrendData (fixedZone 19800000) 1710484200000 [sampleExpense]) = 7
   \<and> map date_b (weeklyTrendData (fixedZone 19800000) 1710484200000 [sampleExpense]) =
       [''2024-03-09'', ''2024-03-10'', ''2024-03-11'', ''2024-03-12'', ''2024-03-13'', ''2024-03-14'',
        ''2024-03-15'']
   \<and> dayTotal ''2024-03-15'' [sampleExpense] = 120"
proof -
  have c: "clockReading 1710484200000"
    by (simp add: clockReading_def)
  have f: "fadd 0 120 = 120"
    by code_simp
  show ?thesis
    using weeklyTrendData_fixedZone [OF c, of 19800000 "[sampleExpense]"] c week_sample
    by (simp add: Day_sample dayTotal_def fsum_def sampleExpense_def f)
qed

subsection \<open>The local day and the UTC day\<close>

text \<open>In India at 01:30 on Friday 15 March 2024, which is 20:00 on Thursday 14 March in UTC.\<close>

lemma india_buckets:
  "newBucket India 1710446400000 0 = \<lparr> name_b = ''Fri'', date_b = ''2024-03-14'', amount_b = 0 \<rparr>"
  "newBucket India 1710446400000 1 = \<lparr> name_b = ''Thu'', date_b = ''2024-03-13'', amount_b = 0 \<rparr>"
  "newBucket India 1710446400000 2 = \<lparr> name_b = ''Wed'', date_b = ''2024-03-12'', amount_b = 0 \<rparr>"
  "newBucket India 1710446400000 3 = \<lparr> name_b = ''Tue'', date_b = ''2024-03-11'', amount_b = 0 \<rparr>"
  "newBucket India 1710446400000 4 = \<lparr> name_b = ''Mon'', date_b = ''2024-03-10'', amount_b = 0 \<rparr>"
  "newBucket India 1710446400000 5 = \<lparr> name_b = ''Sun'', date_b = ''2024-03-09'', amount_b = 0 \<rparr>"
  "newBucket India 1710446400000 6 = \<lparr> name_b = ''Sat'', date_b = ''2024-03-08'', amount_b = 0 \<rparr>"
  by code_simp+

lemma india_local_date:
  "getFullYear India 1710446400000 = 2024" "getMonth India 1710446400000 = 2"
  "getDate India 1710446400000 = 15" "getDay India 1710446400000 = 5"
  by code_simp+

text \<open>In New York at 19:30 on Monday 11 March 2024, the day after daylight saving time began.\<close>

lemma newYork_buckets:
  "newBucket NewYork 1710199800000 0 = \<lparr> name_b = ''Mon'', date_b = ''2024-03-11'', amount_b = 0 \<rparr>"
  "newBucket NewYork 1710199800000 1 = \<lparr> name_b = ''Sun'', date_b = ''2024-03-10'', amount_b = 0 \<rparr>"
  "newBucket NewYork 1710199800000 2 = \<lparr> name_b = ''Sat'', date_b = ''2024-03-10'', amount_b = 0 \<rparr>"
  "newBucket NewYork 1710199800000 3 = \<lparr> name_b = ''Fri'', date_b = ''2024-03-09'', amount_b = 0 \<rparr>"
  "newBucket NewYork 1710199800000 4 = \<lparr> name_b = ''Thu'', date_b = ''2024-03-08'', amount_b = 0 \<rparr>"
  "newBucket NewYork 1710199800000 5 = \<lparr> name_b = ''Wed'', date_b = ''2024-03-07'', amount_b = 0 \<rparr>"
  "newBucket NewYork 1710199800000 6 = \<lparr> name_b = ''Tue'', date_b = ''2024-03-06'', amount_b = 0 \<rparr>"
  by code_simp+

text \<open>
  Claim C6 does not hold of \<open>weeklyTrendData\<close>: the days are counted in local time and
  printed in UTC. In India at 01:30 on Friday 15 March 2024 the seven date keys are 8 to
  14 March: the bucket named \<open>Fri\<close> has the key of Thursday, the expense that the list holds
  for 15 March is in no bucket, and there is a bucket for 8 March, which is not among
  today and the six days before it. In New York on the evening of 11 March 2024 the key
  2024-03-10 occurs twice and 5 March, six days before, has no bucket.
\<close>

theorem weeklyTrendData_local_day:
  "getFullYear India 1710446400000 = 2024 \<and> getMonth India 1710446400000 = 2
   \<and> getDate India 1710446400000 = 15
   \<and> date sampleExpense = ''2024-03-15'' \<and> amount sampleExpense = 120
   \<and> weeklyTrendData India 1710446400000 [sampleExpense] =
       [\<lparr> name_b = ''Sat'', date_b = ''2024-03-08'', amount_b = 0 \<rparr>,
        \<lparr> name_b = ''Sun'', date_b = ''2024-03-09'', amount_b = 0 \<rparr>,
        \<lparr> name_b = ''Mon'', date_b = ''2024-03-10'', amount_b = 0 \<rparr>,
        \<lparr> name_b = ''Tue'', date_b = ''2024-03-11'', amount_b = 0 \<rparr>,
        \<lparr> name_b = ''Wed'', date_b = ''2024-03-12'', amount_b = 0 \<rparr>,
        \<lparr> name_b = ''Thu'', date_b = ''2024-03-13'', amount_b = 0 \<rparr>,
        \<lparr> name_b = ''Fri'', date_b = ''2024-03-14'', amount_b = 0 \<rparr>]
   \<and> map date_b (weeklyTrendData NewYork 1710199800000 []) =
       [''2024-03-06'', ''2024-03-07'', ''2024-03-08'', ''2024-03-09'', ''2024-03-10'', ''2024-03-10'',
        ''2024-03-11'']"
  by (simp add: weeklyTrendData_def india_buckets newYork_buckets india_local_date sampleExpense_def)

section \<open>Calendar days in order\<close>

lemma MakeDay_month: "1 \<le> m \<Longrightarrow> m \<le> 12 \<Longrightarrow>
   MakeDay y (m - 1) d = DayFromYear y + monthStart (if isLeapYear y then 1 else 0) (m - 1) + d - 1"
  by (simp add: MakeDay_def)

lemma month_cases:
  fixes m :: int
  assumes "1 \<le> m" "m \<le> 12"
  shows "m = 1 \<or> m = 2 \<or> m = 3 \<or> m = 4 \<or> m = 5 \<or> m = 6 \<or> m = 7 \<or> m = 8 \<or> m = 9 \<or> m = 10 \<or> m = 11 \<or> m = 12"
  using assms by presburger

text \<open>Month \<open>m\<close> (1 = January) ends where month \<open>m + 1\<close> starts, December where the year ends.\<close>

lemma monthStart_next:
  assumes "1 \<le> m" "m \<le> 12"
  shows "monthStart (if isLeapYear y then 1 else 0) (m - 1) + DaysInMonth y m
         = (if m = 12 then DaysInYear y else monthStart (if isLeapYear y then 1 else 0) m)"
  using month_cases [OF assms]
  by (elim disjE) (simp_all add: monthStart_def DaysInMonth_def DaysInYear_def)

lemma monthStart_mono:
  assumes "0 \<le> a" "a \<le> b" "b \<le> 11" "l = 0 \<or> l = 1"
  shows "monthStart l a \<le> monthStart l b"
proof -
  have "a = 0 \<or> a = 1 \<or> a = 2 \<or> a = 3 \<or> a = 4 \<or> a = 5 \<or> a = 6 \<or> a = 7 \<or> a = 8 \<or> a = 9 \<or> a = 10 \<or> a = 11"
    using assms by presburger
  moreover have "b = 0 \<or> b = 1 \<or> b = 2 \<or> b = 3 \<or> b = 4 \<or> b = 5 \<or> b = 6 \<or> b = 7 \<or> b = 8 \<or> b = 9 \<or> b = 10 \<or> b = 11"
    using assms by presburger
  ultimately show ?thesis
    using assms(2,4) by (elim disjE) (simp_all add: monthStart_def)
qed

lemma leap_flag: "(if isLeapYear y then 1 else 0) = (0::int) \<or> (if isLeapYear y then 1 else 0) = (1::int)"
  by simp

lemma dayOfYear_range:
  assumes "1 \<le> m" "m \<le> 12" "1 \<le> d" "d \<le> DaysInMonth y m"
  shows "0 \<le> monthStart (if isLeapYear y then 1 else 0) (m - 1) + d - 1"
    and "monthStart (if isLeapYear y then 1 else 0) (m - 1) + d - 1 < DaysInYear y"
proof -
  let ?l = "if isLeapYear y then 1 else 0 :: int"
  have "monthStart ?l 0 \<le> monthStart ?l (m - 1)"
    using assms(1,2) leap_flag [of y] by (intro monthStart_mono) simp_all
  then show "0 \<le> monthStart ?l (m - 1) + d - 1"
    using assms(3) by (simp add: monthStart_def)
  have e: "monthStart ?l (m - 1) + DaysInMonth y m = (if m = 12 then DaysInYear y else monthStart ?l m)"
    using assms(1,2) by (rule monthStart_next)
  have "(if m = 12 then DaysInYear y else monthStart ?l m) \<le> DaysInYear y"
  proof (cases "m = 12")
    case True
    then show ?thesis by simp
  next
    case False
    then have "monthStart ?l m \<le> monthStart ?l 11"
      using assms(1,2) leap_flag [of y] by (intro monthStart_mono) simp_all
    then show ?thesis
      using False by (simp add: monthStart_def DaysInYear_def split: if_splits)
  qed
  then show "monthStart ?l (m - 1) + d - 1 < DaysInYear y"
    using e assms(4) by linarith
qed

text \<open>A later calendar day has a larger day number.\<close>

lemma MakeDay_less:
  assumes v: "1 \<le> m" "m \<le> 12" "1 \<le> d" "d \<le> DaysInMonth y m"
      and v': "1 \<le> m'" "m' \<le> 12" "1 \<le> d'" "d' \<le> DaysInMonth y' m'"
      and lt: "y < y' \<or> (y = y' \<and> (m < m' \<or> (m = m' \<and> d < d')))"
  shows "MakeDay y (m - 1) d < MakeDay y' (m' - 1) d'"
proof -
  let ?l = "if isLeapYear y then 1 else 0 :: int"
  let ?l' = "if isLeapYear y' then 1 else 0 :: int"
  define a where "a = monthStart ?l (m - 1) + d - 1"
  define a' where "a' = monthStart ?l' (m' - 1) + d' - 1"
  have md: "MakeDay y (m - 1) d = DayFromYear y + a" "MakeDay y' (m' - 1) d' = DayFromYear y' + a'"
    using v(1,2) v'(1,2) by (simp_all add: MakeDay_month a_def a'_def)
  have r: "0 \<le> a" "a < DaysInYear y" "0 \<le> a'"
    unfolding a_def a'_def
    using dayOfYear_range [OF v] dayOfYear_range(1) [OF v'] by simp_all
  consider (year) "y < y'" | (month) "y = y'" "m < m'" | (day) "y = y'" "m = m'" "d < d'"
    using lt by blast
  then show ?thesis
  proof cases
    case year
    then have "DayFromYear y + DaysInYear y \<le> DayFromYear y'"
      by (rule DayFromYear_less)
    then show ?thesis
      unfolding md using r by linarith
  next
    case month
    have n: "m \<noteq> 12" using month(2) v'(2) by simp
    have "monthStart ?l (m - 1) + DaysInMonth y m = monthStart ?l m"
      using monthStart_next [OF v(1,2), of y] n by simp
    moreover have "monthStart ?l m \<le> monthStart ?l (m' - 1)"
      using month(2) v(1) v'(2) leap_flag [of y] by (intro monthStart_mono) simp_all
    ultimately have "a < a'"
      unfolding a_def a'_def using month(1) v(4) v'(3) by simp
    then show ?thesis
      unfolding md using month(1) by simp
  next
    case day
    then show ?thesis
      unfolding md a_def a'_def by simp
  qed
qed

section \<open>Date strings in order\<close>

lemma lex_le:
  fixes B q q' r r' :: int
  assumes "0 \<le> r" "r < B" "0 \<le> r'" "r' < B"
  shows "(q < q' \<or> (q = q' \<and> r \<le> r')) \<longleftrightarrow> (B * q + r \<le> B * q' + r')"
proof -
  have B: "0 < B" using assms by linarith
  have up: "B * x + B \<le> B * z" if "x < z" for x z :: int
  proof -
    have "B * (x + 1) \<le> B * z"
      using that B by (intro mult_left_mono) simp_all
    then show ?thesis by (simp add: algebra_simps)
  qed
  show ?thesis
  proof (cases "q < q'")
    case True
    then show ?thesis using up [OF True] assms by linarith
  next
    case False
    show ?thesis
    proof (cases "q = q'")
      case True
      then show ?thesis by simp
    next
      case ne: False
      then have "q' < q" using False by simp
      then show ?thesis using up [of q' q] assms ne False by linarith
    qed
  qed
qed

lemma digits8_le:
  fixes a b c d e f g h a' b' c' d' e' f' g' h' :: int
  assumes "0 \<le> a \<and> a \<le> 9" "0 \<le> b \<and> b \<le> 9" "0 \<le> c \<and> c \<le> 9" "0 \<le> d \<and> d \<le> 9"
          "0 \<le> e \<and> e \<le> 9" "0 \<le> f \<and> f \<le> 9" "0 \<le> g \<and> g \<le> 9" "0 \<le> h \<and> h \<le> 9"
          "0 \<le> a' \<and> a' \<le> 9" "0 \<le> b' \<and> b' \<le> 9" "0 \<le> c' \<and> c' \<le> 9" "0 \<le> d' \<and> d' \<le> 9"
          "0 \<le> e' \<and> e' \<le> 9" "0 \<le> f' \<and> f' \<le> 9" "0 \<le> g' \<and> g' \<le> 9" "0 \<le> h' \<and> h' \<le> 9"
  shows "(a < a' \<or> a = a' \<and> (b < b' \<or> b = b' \<and> (c < c' \<or> c = c' \<and> (d < d' \<or> d = d' \<and>
           (e < e' \<or> e = e' \<and> (f < f' \<or> f = f' \<and> (g < g' \<or> g = g' \<and> h \<le> h')))))))
         \<longleftrightarrow> 10000 * (1000 * a + 100 * b + 10 * c + d) + 100 * (10 * e + f) + (10 * g + h)
             \<le> 10000 * (1000 * a' + 100 * b' + 10 * c' + d') + 100 * (10 * e' + f') + (10 * g' + h')"
proof -
  have 1: "(g < g' \<or> g = g' \<and> h \<le> h') \<longleftrightarrow> 10 * g + h \<le> 10 * g' + h'"
    using assms by (intro lex_le) simp_all
  have 2: "(f < f' \<or> f = f' \<and> 10 * g + h \<le> 10 * g' + h') \<longleftrightarrow> 100 * f + (10 * g + h) \<le> 100 * f' + (10 * g' + h')"
    using assms by (intro lex_le) simp_all
  have 3: "(e < e' \<or> e = e' \<and> 100 * f + (10 * g + h) \<le> 100 * f' + (10 * g' + h'))
       \<longleftrightarrow> 1000 * e + (100 * f + (10 * g + h)) \<le> 1000 * e' + (100 * f' + (10 * g' + h'))"
    using assms by (intro lex_le) simp_all
  have 4: "(d < d' \<or> d = d' \<and> 1000 * e + (100 * f + (10 * g + h)) \<le> 1000 * e' + (100 * f' + (10 * g' + h')))
       \<longleftrightarrow> 10000 * d + (1000 * e + (100 * f + (10 * g + h))) \<le> 10000 * d' + (1000 * e' + (100 * f' + (10 * g' + h')))"
    using assms by (intro lex_le) simp_all
  have 5: "(c < c' \<or> c = c' \<and> 10000 * d + (1000 * e + (100 * f + (10 * g + h))) \<le> 10000 * d' + (1000 * e' + (100 * f' + (10 * g' + h'))))
       \<longleftrightarrow> 100000 * c + (10000 * d + (1000 * e + (100 * f + (10 * g + h))))
           \<le> 100000 * c' + (10000 * d' + (1000 * e' + (100 * f' + (10 * g' + h'))))"
    using assms by (intro lex_le) simp_all
  have 6: "(b < b' \<or> b = b' \<and> 100000 * c + (10000 * d + (1000 * e + (100 * f + (10 * g + h))))
           \<le> 100000 * c' + (10000 * d' + (1000 * e' + (100 * f' + (10 * g' + h')))))
       \<longleftrightarrow> 1000000 * b + (100000 * c + (10000 * d + (1000 * e + (100 * f + (10 * g + h)))))
           \<le> 1000000 * b' + (100000 * c' + (10000 * d' + (1000 * e' + (100 * f' + (10 * g' + h')))))"
    using assms by (intro lex_le) simp_all
  have 7: "(a < a' \<or> a = a' \<and> 1000000 * b + (100000 * c + (10000 * d + (1000 * e + (100 * f + (10 * g + h)))))
           \<le> 1000000 * b' + (100000 * c' + (10000 * d' + (1000 * e' + (100 * f' + (10 * g' + h'))))))
       \<longleftrightarrow> 10000000 * a + (1000000 * b + (100000 * c + (10000 * d + (1000 * e + (100 * f + (10 * g + h))))))
           \<le> 10000000 * a' + (1000000 * b' + (100000 * c' + (10000 * d' + (1000 * e' + (100 * f' + (10 * g' + h'))))))"
    using assms by (intro lex_le) simp_all
  show ?thesis
    unfolding 1 2 3 4 5 6 7 by (simp add: algebra_simps)
qed


lemma lex_less:
  fixes B q q' r r' :: int
  assumes "0 \<le> r" "r < B" "0 \<le> r'" "r' < B"
  shows "(q < q' \<or> (q = q' \<and> r < r')) \<longleftrightarrow> (B * q + r < B * q' + r')"
  using lex_le [OF assms(3,4,1,2), of q' q] by auto

lemma char_order:
  "(c < c') = (digitVal c < digitVal c')" "(c \<le> c') = (digitVal c \<le> digitVal c')"
  "(c = c') = (digitVal c = digitVal c')"
  by (auto simp: digitVal_def less_char_def less_eq_char_def)

lemma isDigit_val: "isDigit c = (0 \<le> digitVal c \<and> digitVal c \<le> 9)"
  by (auto simp: isDigit_def digitVal_def less_eq_char_def)

lemma list10:
  assumes "length s = 10"
  shows "s = [s ! 0, s ! 1, s ! 2, s ! 3, s ! 4, s ! 5, s ! 6, s ! 7, s ! 8, s ! 9]"
proof -
  have "length s = Suc (Suc (Suc (Suc (Suc (Suc (Suc (Suc (Suc (Suc 0)))))))))"
    using assms by simp
  then obtain a b c d e f g h i j where "s = [a, b, c, d, e, f, g, h, i, j]"
    by (auto simp: length_Suc_conv)
  then show ?thesis by simp
qed

text \<open>The number \<open>YYYYMMDD\<close> that a date string spells.\<close>

lemma date_string_le:
  assumes "matchesDatePattern s" "matchesDatePattern s'"
  shows "(s \<le> s') =
         (10000 * dateYear s + 100 * dateMonth s + dateDay s
            \<le> 10000 * dateYear s' + 100 * dateMonth s' + dateDay s')"
proof -
  have s: "s = [s ! 0, s ! 1, s ! 2, s ! 3, CHR ''-'', s ! 5, s ! 6, CHR ''-'', s ! 8, s ! 9]"
    using assms(1) list10 [of s] by (simp add: matchesDatePattern_def)
  have s': "s' = [s' ! 0, s' ! 1, s' ! 2, s' ! 3, CHR ''-'', s' ! 5, s' ! 6, CHR ''-'', s' ! 8, s' ! 9]"
    using assms(2) list10 [of s'] by (simp add: matchesDatePattern_def)
  have "(s \<le> s') =
        ([s ! 0, s ! 1, s ! 2, s ! 3, CHR ''-'', s ! 5, s ! 6, CHR ''-'', s ! 8, s ! 9]
          \<le> [s' ! 0, s' ! 1, s' ! 2, s' ! 3, CHR ''-'', s' ! 5, s' ! 6, CHR ''-'', s' ! 8, s' ! 9])"
    using s s' by simp
  also have "\<dots> =
    (digitVal (s ! 0) < digitVal (s' ! 0) \<or> digitVal (s ! 0) = digitVal (s' ! 0) \<and>
    (digitVal (s ! 1) < digitVal (s' ! 1) \<or> digitVal (s ! 1) = digitVal (s' ! 1) \<and>
    (digitVal (s ! 2) < digitVal (s' ! 2) \<or> digitVal (s ! 2) = digitVal (s' ! 2) \<and>
    (digitVal (s ! 3) < digitVal (s' ! 3) \<or> digitVal (s ! 3) = digitVal (s' ! 3) \<and>
    (digitVal (s ! 5) < digitVal (s' ! 5) \<or> digitVal (s ! 5) = digitVal (s' ! 5) \<and>
    (digitVal (s ! 6) < digitVal (s' ! 6) \<or> digitVal (s ! 6) = digitVal (s' ! 6) \<and>
    (digitVal (s ! 8) < digitVal (s' ! 8) \<or> digitVal (s ! 8) = digitVal (s' ! 8) \<and>
     digitVal (s ! 9) \<le> digitVal (s' ! 9))))))))"
    by (simp add: char_order [symmetric] order_le_less [of "s ! 9"])
  also have "\<dots> =
    (10000 * (1000 * digitVal (s ! 0) + 100 * digitVal (s ! 1) + 10 * digitVal (s ! 2) + digitVal (s ! 3))
       + 100 * (10 * digitVal (s ! 5) + digitVal (s ! 6)) + (10 * digitVal (s ! 8) + digitVal (s ! 9))
     \<le> 10000 * (1000 * digitVal (s' ! 0) + 100 * digitVal (s' ! 1) + 10 * digitVal (s' ! 2) + digitVal (s' ! 3))
       + 100 * (10 * digitVal (s' ! 5) + digitVal (s' ! 6)) + (10 * digitVal (s' ! 8) + digitVal (s' ! 9)))"
    using assms by (intro digits8_le) (simp_all add: matchesDatePattern_def isDigit_val)
  finally show ?thesis
    by (simp only: dateYear_def dateMonth_def dateDay_def)
qed

lemma DaysInMonth_le: "DaysInMonth y m \<le> 31"
  by (simp add: DaysInMonth_def)

lemma dateTime_SomeD:
  assumes "dateTime s = Some t"
  shows "matchesDatePattern s" "1 \<le> dateMonth s" "dateMonth s \<le> 12" "1 \<le> dateDay s"
    "dateDay s \<le> DaysInMonth (dateYear s) (dateMonth s)"
    "t = MakeDay (dateYear s) (dateMonth s - 1) (dateDay s) * msPerDay"
  using assms by (simp_all add: dateTime_def MakeDate_def split: if_splits)

text \<open>On valid dates the order of the strings is the order of the days.\<close>

lemma dateTime_less:
  assumes "dateTime s = Some t" "dateTime s' = Some t'" "s < s'"
  shows "t < t'"
proof -
  note v = dateTime_SomeD [OF assms(1)] and v' = dateTime_SomeD [OF assms(2)]
  define y m d where "y = dateYear s" and "m = dateMonth s" and "d = dateDay s"
  define y' m' d' where "y' = dateYear s'" and "m' = dateMonth s'" and "d' = dateDay s'"
  have b: "d \<le> 31" "d' \<le> 31"
    using v(5) v'(5) DaysInMonth_le [of y m] DaysInMonth_le [of y' m'] 
    by (simp_all add: y_def m_def d_def y'_def m'_def d'_def)
  have r: "1 \<le> m" "m \<le> 12" "1 \<le> d" "1 \<le> m'" "m' \<le> 12" "1 \<le> d'"
    using v v' by (simp_all add: m_def d_def m'_def d'_def)
  have "\<not> s' \<le> s" using assms(3) by simp
  then have "\<not> 10000 * y' + 100 * m' + d' \<le> 10000 * y + 100 * m + d"
    using date_string_le [OF v'(1) v(1)] by (simp add: y_def m_def d_def y'_def m'_def d'_def)
  then have n: "10000 * y + (100 * m + d) < 10000 * y' + (100 * m' + d')"
    by simp
  have "y < y' \<or> (y = y' \<and> 100 * m + d < 100 * m' + d')"
    using n r b by (subst lex_less) simp_all
  moreover have "(100 * m + d < 100 * m' + d') = (m < m' \<or> (m = m' \<and> d < d'))"
    using r b by (subst lex_less) simp_all
  ultimately have "y < y' \<or> (y = y' \<and> (m < m' \<or> (m = m' \<and> d < d')))"
    by simp
  then have "MakeDay y (m - 1) d < MakeDay y' (m' - 1) d'"
    using v(2-5) v'(2-5) unfolding y_def m_def d_def y'_def m'_def d'_def
    by (intro MakeDay_less) 
  then show ?thesis
    unfolding v(6) v'(6) y_def m_def d_def y'_def m'_def d'_def
    by (simp add: msPerDay_def)
qed

lemma dateTime_le:
  assumes "dateTime s = Some t" "dateTime s' = Some t'"
  shows "(t \<le> t') = (s \<le> s')"
proof
  assume "t \<le> t'"
  then have "\<not> s' < s"
    using dateTime_less [OF assms(2,1)] by fastforce
  then show "s \<le> s'" by simp
next
  assume "s \<le> s'"
  then consider "s = s'" | "s < s'" by fastforce
  then show "t \<le> t'"
  proof cases
    case 1
    then show ?thesis using assms by simp
  next
    case 2
    then show ?thesis using dateTime_less [OF assms 2] by simp
  qed
qed

section \<open>Sorting expenses\<close>



lemma validDate_timeOf: "validDate (date e) \<Longrightarrow> dateTime (date e) = Some (timeOf e)"
  by (auto simp: validDate_def timeOf_def)

lemma arraySort_dateDifference:
  assumes "list_all (\<lambda>e. validDate (date e)) xs"
  shows "arraySort dateDifference xs = sort_key (\<lambda>e. - timeOf e) xs"
proof (rule arraySort_sort_key)
  fix x y assume "x \<in> set xs" "y \<in> set xs"
  then have "dateTime (date x) = Some (timeOf x)" "dateTime (date y) = Some (timeOf y)"
    using assms by (simp_all add: list_all_iff validDate_timeOf)
  then show "(comparatorResult (dateDifference x y) \<le> 0) = (- timeOf x \<le> - timeOf y)"
    by (simp add: dateDifference_def comparatorResult_def fsub_sign)
qed

text \<open>Valid dates: the same time value means the same date, a later time a later date.\<close>

lemma timeOf_le:
  assumes "validDate (date a)" "validDate (date b)"
  shows "(timeOf a \<le> timeOf b) = (date a \<le> date b)"
  using assms by (intro dateTime_le validDate_timeOf)

lemma timeOf_eq:
  assumes "validDate (date a)" "validDate (date b)"
  shows "(timeOf a = timeOf b) = (date a = date b)"
  using timeOf_le [OF assms] timeOf_le [OF assms(2,1)] by auto

text \<open>Sorted by date, latest first: order, content, stability, and sorting again changes nothing.\<close>

lemma sortByDate:
  assumes v: "list_all (\<lambda>e. validDate (date e)) L"
  shows "sorted_wrt (\<lambda>a b. date b \<le> date a) (arraySort dateDifference L)"
    and "mset (arraySort dateDifference L) = mset L"
    and "filter (\<lambda>e. date e = d) (arraySort dateDifference L) = filter (\<lambda>e. date e = d) L"
    and "arraySort dateDifference (arraySort dateDifference L) = arraySort dateDifference L"
proof -
  let ?R = "arraySort dateDifference L"
  have R: "?R = sort_key (\<lambda>e. - timeOf e) L"
    using v by (rule arraySort_dateDifference)
  have vR: "list_all (\<lambda>e. validDate (date e)) ?R"
    using v by (simp add: list_all_iff set_arraySort)
  have "sorted (map (\<lambda>e. - timeOf e) ?R)"
    unfolding R by (rule sorted_sort_key)
  then have "sorted_wrt (\<lambda>a b. timeOf b \<le> timeOf a) ?R"
    by (simp only: sorted_map_uminus)
  then show "sorted_wrt (\<lambda>a b. date b \<le> date a) ?R"
  proof (rule sorted_wrt_mono_rel [rotated])
    fix a b assume "a \<in> set ?R" "b \<in> set ?R" "timeOf b \<le> timeOf a"
    then show "date b \<le> date a"
      using vR timeOf_le [of b a] by (simp add: list_all_iff)
  qed
  show "mset ?R = mset L"
    by (rule mset_arraySort)
  show "filter (\<lambda>e. date e = d) ?R = filter (\<lambda>e. date e = d) L"
  proof (cases "\<exists>x \<in> set L. date x = d")
    case True
    then obtain x where x: "x \<in> set L" "date x = d" by blast
    have same: "(date e = d) = (- timeOf e = - timeOf x)" if "e \<in> set L" for e
    proof -
      have "validDate (date e)" "validDate (date x)"
        using that x(1) v by (simp_all add: list_all_iff)
      then have "(timeOf e = timeOf x) = (date e = date x)"
        by (rule timeOf_eq)
      then show ?thesis using x(2) by simp
    qed
    have "filter (\<lambda>e. date e = d) ?R = filter (\<lambda>e. - timeOf e = - timeOf x) ?R"
      using same by (intro filter_cong) (simp_all add: set_arraySort)
    also have "\<dots> = filter (\<lambda>e. - timeOf e = - timeOf x) L"
      unfolding R by (rule sort_key_stable)
    also have "\<dots> = filter (\<lambda>e. date e = d) L"
      using same by (intro filter_cong) simp_all
    finally show ?thesis .
  next
    case False
    then have "filter (\<lambda>e. date e = d) L = []" "filter (\<lambda>e. date e = d) ?R = []"
      by (auto simp: filter_empty_conv set_arraySort)
    then show ?thesis by simp
  qed
  have "sort_key (\<lambda>e. - timeOf e) (sort_key (\<lambda>e. - timeOf e) L) = sort_key (\<lambda>e. - timeOf e) L"
    by (intro sort_key_id_if_sorted sorted_sort_key)
  then show "arraySort dateDifference ?R = ?R"
    using arraySort_dateDifference [OF vR] R by simp
qed




lemma valid_filter:
  "list_all (\<lambda>e. validDate (date e)) L \<Longrightarrow> list_all (\<lambda>e. validDate (date e)) (filter P L)"
  by (simp add: list_all_iff)

text \<open>A date that \<open>new Date\<close> reads as a calendar day: the hypothesis of the order by date.\<close>

lemma validDate_samples: "validDate ''2024-03-15''" "validDate ''2024-03-14''" "validDate ''2024-01-01''"
  by (simp_all add: validDate_def dateTime_def matchesDatePattern_def isDigit_def dateMonth_def dateDay_def
      dateYear_def digitVal_def DaysInMonth_def)





section \<open>Reports\<close>

subsection \<open>The range of a report\<close>

text \<open>In India at 12:00 on 15 March 2024, which is 06:30 in UTC.\<close>

lemma india_noon:
  "getFullYear India 1710484200000 = 2024" "getMonth India 1710484200000 = 2"
  "getDate India 1710484200000 = 15"
  by code_simp+

lemma india_month_starts:
  "newDate India 2024 2 1 = 1709231400000" "newDate India 2024 1 1 = 1706725800000"
  "newDate India 2024 2 0 = 1709145000000" "getMonth India 1706725800000 = 1"
  by code_simp+

lemma india_dates:
  "getFormattedDate 1709231400000 = ''2024-02-29''" "getFormattedDate 1706725800000 = ''2024-01-31''"
  "getFormattedDate 1709145000000 = ''2024-02-28''"
  by code_simp+

text \<open>The same instant where the host's zone is UTC.\<close>

lemma utc_morning:
  "getFullYear zoneUTC 1710484200000 = 2024" "getMonth zoneUTC 1710484200000 = 2"
  by code_simp+

lemma utc_month_starts:
  "newDate zoneUTC 2024 2 1 = 1709251200000" "newDate zoneUTC 2024 1 1 = 1706745600000"
  "newDate zoneUTC 2024 2 0 = 1709164800000" "getMonth zoneUTC 1706745600000 = 1"
  by code_simp+

lemma utc_dates:
  "getFormattedDate 1709251200000 = ''2024-03-01''" "getFormattedDate 1706745600000 = ''2024-02-01''"
  "getFormattedDate 1709164800000 = ''2024-02-29''"
  by code_simp+

text \<open>
  Claim C1 does not hold of \<open>generateReport\<close>: the first and the last day of a month are
  built as local midnights and printed in UTC. In India at noon on 15 March 2024 the
  range of "this month" starts on 29 February, and the range of "last month" is 31 January
  to 28 February, where the claim has 1 March, and 1 February to 29 February. The ranges
  of the claim are those that the code computes at the same instant where the host's
  zone is UTC.
\<close>

theorem reportRange_local_midnight:
  "getFullYear India 1710484200000 = 2024 \<and> getMonth India 1710484200000 = 2
   \<and> getDate India 1710484200000 = 15
   \<and> reportRange India 1710484200000 ThisMonth = (''Report for March'', ''2024-02-29'', ''2024-03-15'')
   \<and> reportRange India 1710484200000 LastMonth = (''Report for February'', ''2024-01-31'', ''2024-02-28'')
   \<and> reportRange zoneUTC 1710484200000 ThisMonth = (''Report for March'', ''2024-03-01'', ''2024-03-15'')
   \<and> reportRange zoneUTC 1710484200000 LastMonth = (''Report for February'', ''2024-02-01'', ''2024-02-29'')"
  by (simp add: reportRange_def india_noon india_month_starts india_dates utc_morning utc_month_starts
      utc_dates getFormattedDate_sample monthLong_def)

subsection \<open>The contents of a report\<close>

lemma generateReport_report:
  "report (generateReport z now expenses period st) =
     Some \<lparr> title = fst (reportRange z now period),
            expenses_r = arraySort dateDifference (filter (inReport z now period) expenses) \<rparr>"
proof -
  have "inReport z now period =
          (\<lambda>e. fst (snd (reportRange z now period)) \<le> date e \<and> date e \<le> snd (snd (reportRange z now period)))"
    by (rule ext) (simp add: inReport_def reportStart_def reportEnd_def)
  then show ?thesis
    by (simp add: generateReport_def case_prod_unfold Let_def)
qed

lemma generateReport_state:
  "generateReport z now expenses period st = generateReport z now expenses period st'"
  by (simp add: generateReport_def case_prod_unfold Let_def)

lemma dateDifference_sample: "dateDifference busExpense sampleExpense = Some 86400000"
  by code_simp

lemma range_sample:
  "inReport India 1710484200000 ThisMonth busExpense" "inReport India 1710484200000 ThisMonth sampleExpense"
proof -
  have r: "reportStart India 1710484200000 ThisMonth = ''2024-02-29''"
          "reportEnd India 1710484200000 ThisMonth = ''2024-03-15''"
    by (simp_all add: reportStart_def reportEnd_def reportRange_def india_noon india_month_starts india_dates
        getFormattedDate_sample)
  have "''2024-02-29'' \<le> ''2024-03-14''" "''2024-03-14'' \<le> ''2024-03-15''"
       "''2024-02-29'' \<le> ''2024-03-15''" "''2024-03-15'' \<le> ''2024-03-15''"
    by code_simp+
  then show "inReport India 1710484200000 ThisMonth busExpense"
            "inReport India 1710484200000 ThisMonth sampleExpense"
    by (simp_all add: inReport_def r busExpense_def sampleExpense_def)
qed

text \<open>
  Claim C7. For every zone, clock reading, period and expense list, the report holds the
  title of the period and the expenses of the list whose date lies between the start and
  the end of the range, both included, in the order of strings, each as often as the list
  holds it. Where the dates of these expenses are calendar days in the form
  \<open>YYYY-MM-DD\<close>, they are in descending order of their dates, those of equal date in the
  order they have in the list. The report does not depend on the state before:
  generating it again, from the state it left or from any other, gives the same state.
\<close>

theorem generateReport_contents:
  "(\<exists>E. report (generateReport z now expenses period st)
              = Some \<lparr> title = fst (reportRange z now period), expenses_r = E \<rparr>
         \<and> mset E = mset (filter (inReport z now period) expenses)
         \<and> (list_all (\<lambda>e. validDate (date e)) (filter (inReport z now period) expenses) \<longrightarrow>
               sorted_wrt (\<lambda>a b. date b \<le> date a) E
             \<and> (\<forall>d. filter (\<lambda>e. date e = d) E
                    = filter (\<lambda>e. date e = d) (filter (inReport z now period) expenses))))
   \<and> generateReport z now expenses period (generateReport z now expenses period st)
       = generateReport z now expenses period st
   \<and> generateReport z now expenses period st = generateReport z now expenses period st'"
proof -
  let ?F = "filter (inReport z now period) expenses"
  have sorted: "sorted_wrt (\<lambda>a b. date b \<le> date a) (arraySort dateDifference ?F)
             \<and> (\<forall>d. filter (\<lambda>e. date e = d) (arraySort dateDifference ?F) = filter (\<lambda>e. date e = d) ?F)"
    if v: "list_all (\<lambda>e. validDate (date e)) ?F"
    using sortByDate(1,3) [OF v] by simp
  have content: "mset (arraySort dateDifference ?F) = mset ?F"
    by (rule mset_arraySort)
  have again: "generateReport z now expenses period (generateReport z now expenses period st)
       = generateReport z now expenses period st"
    by (rule generateReport_state)
  show ?thesis
    using sorted content again generateReport_state [of z now expenses period st st']
    by (simp add: generateReport_report)
qed

theorem generateReport_contents_witness:
  "list_all (\<lambda>e. validDate (date e)) (filter (inReport India 1710484200000 ThisMonth) twoExpenses)
   \<and> report (generateReport India 1710484200000 twoExpenses ThisMonth \<lparr> report = None \<rparr>)
       = Some \<lparr> title = ''Report for March'', expenses_r = [sampleExpense, busExpense] \<rparr>
   \<and> sorted_wrt (\<lambda>a b. date b \<le> date a) [sampleExpense, busExpense]"
proof -
  have f: "filter (inReport India 1710484200000 ThisMonth) twoExpenses = twoExpenses"
    by (simp add: twoExpenses_def range_sample)
  have v: "list_all (\<lambda>e. validDate (date e)) (filter (inReport India 1710484200000 ThisMonth) twoExpenses)"
    unfolding f by (simp add: twoExpenses_def busExpense_def sampleExpense_def validDate_samples)
  have s: "arraySort dateDifference twoExpenses = [sampleExpense, busExpense]"
    by (simp add: arraySort_def twoExpenses_def dateDifference_sample comparatorResult_def)
  have t: "fst (reportRange India 1710484200000 ThisMonth) = ''Report for March''"
    by (simp add: reportRange_def india_noon india_month_starts india_dates getFormattedDate_sample
        monthLong_def)
  have r: "report (generateReport India 1710484200000 twoExpenses ThisMonth \<lparr> report = None \<rparr>)
       = Some \<lparr> title = ''Report for March'', expenses_r = [sampleExpense, busExpense] \<rparr>"
    by (simp add: generateReport_report f s t)
  show ?thesis
    using generateReport_contents [of India 1710484200000 twoExpenses ThisMonth "\<lparr> report = None \<rparr>"] v r
    by auto
qed

end
